theory Spec2Isabelle
  imports Complex_Main
begin

section \<open>Text\<close>

text \<open>
  A Python \<open>str\<close> is a sequence of Unicode code points, and \<open>len\<close> counts code
  points; the euro sign of the price pattern is the single code point U+20AC. Text is
  therefore a list of code points. \<open>str\<close> writes an ASCII literal as such a list.

  \<open>is_digit\<close> is the class of the ASCII digits: \<open>\d\<close> of a JavaScript regular
  expression, and \<open>0-9\<close> in a character class. \<open>\d\<close> of Python's \<open>re\<close> on a
  \<open>str\<close> pattern is wider; it is modelled with the price parser, its only user.
\<close>

type_synonym pystr = "nat list"

definition str :: "string \<Rightarrow> pystr" where
  "str s = map of_char s"

definition is_digit :: "nat \<Rightarrow> bool" where
  "is_digit c = (48 \<le> c \<and> c \<le> 57)"

definition py_isspace :: "nat \<Rightarrow> bool" where
  \<comment> \<open>the characters removed by Python's \<open>str.strip()\<close> without argument\<close>
  "py_isspace c =
     ((9 \<le> c \<and> c \<le> 13) \<or> (28 \<le> c \<and> c \<le> 32) \<or> c = 133 \<or> c = 160 \<or> c = 5760
      \<or> (8192 \<le> c \<and> c \<le> 8202) \<or> c = 8232 \<or> c = 8233 \<or> c = 8239 \<or> c = 8287
      \<or> c = 12288)"

definition js_isspace :: "nat \<Rightarrow> bool" where
  \<comment> \<open>\<open>\s\<close> of a JavaScript regular expression, also what \<open>String.prototype.trim\<close> removes\<close>
  "js_isspace c =
     ((9 \<le> c \<and> c \<le> 13) \<or> c = 32 \<or> c = 160 \<or> c = 5760
      \<or> (8192 \<le> c \<and> c \<le> 8202) \<or> c = 8232 \<or> c = 8233 \<or> c = 8239 \<or> c = 8287
      \<or> c = 12288 \<or> c = 65279)"

definition strip_by :: "(nat \<Rightarrow> bool) \<Rightarrow> pystr \<Rightarrow> pystr" where
  \<comment> \<open>remove the leading and trailing characters that satisfy \<open>p\<close>\<close>
  "strip_by p s = rev (dropWhile p (rev (dropWhile p s)))"

definition py_strip :: "pystr \<Rightarrow> pystr" where
  "py_strip s = strip_by py_isspace s"

definition js_trim :: "pystr \<Rightarrow> pystr" where
  "js_trim s = strip_by js_isspace s"

fun split_from :: "nat \<Rightarrow> pystr \<Rightarrow> pystr \<Rightarrow> pystr list" where
  \<comment> \<open>\<open>cur\<close> holds the current piece, reversed\<close>
  "split_from sep cur [] = [rev cur]"
| "split_from sep cur (c # cs) =
     (if c = sep then rev cur # split_from sep [] cs else split_from sep (c # cur) cs)"

definition py_split :: "nat \<Rightarrow> pystr \<Rightarrow> pystr list" where
  \<comment> \<open>\<open>s.split(sep)\<close> for a one-character separator: never the empty list\<close>
  "py_split sep s = split_from sep [] s"

fun dec :: "nat \<Rightarrow> pystr" where
  "dec n = (if n < 10 then [48 + n] else dec (n div 10) @ [48 + n mod 10])"

declare dec.simps [simp del]

definition py_str_int :: "int \<Rightarrow> pystr" where
  \<comment> \<open>\<open>str(i)\<close>, also \<open>f"{i}"\<close>, of an integer\<close>
  "py_str_int i = (if i < 0 then 45 # dec (nat (- i)) else dec (nat i))"

definition fmt_07d :: "int \<Rightarrow> pystr" where
  \<comment> \<open>the format specification \<open>07d\<close>: sign first, then zeros up to a total width of 7\<close>
  "fmt_07d i =
     (if i < 0 then 45 # replicate (6 - length (dec (nat (- i)))) 48 @ dec (nat (- i))
      else replicate (7 - length (dec (nat i))) 48 @ dec (nat i))"

fun dec_value :: "pystr \<Rightarrow> nat" where
  \<comment> \<open>the number written by a string of ASCII digits, read from the right\<close>
  "dec_value s = foldl (\<lambda>a c. 10 * a + (c - 48)) 0 s"


section \<open>Identifier from the URL, and the fallback identifier\<close>

text \<open>
  \<^verbatim>\<open>
  def _extract_sku_from_url(self, url):
      parts = url.strip('/').split('/')
      if len(parts) > 0:
          potential_sku = parts[-1]
          if potential_sku and len(potential_sku) > 5:
              return potential_sku
      return None
  \<close>
\<close>

definition extract_sku_from_url :: "pystr \<Rightarrow> pystr option" where
  "extract_sku_from_url url =
     (let parts = py_split 47 (strip_by (\<lambda>c. c = 47) url) in
      if length parts > 0 then
        (let potential_sku = last parts in
         if potential_sku \<noteq> [] \<and> length potential_sku > 5 then Some potential_sku else None)
      else None)"

text \<open>
  \<^verbatim>\<open>fallback_sku = f"WOB-{hash(url) % 10000000:07d}"\<close>

  \<open>hash\<close> is the interpreter's built-in. On a \<open>str\<close> it depends on a salt that the
  interpreter draws when the process starts, so it is a parameter here: one function
  from text to integers for each run of the program. Python's \<open>%\<close> with a positive
  right operand has a result in \<open>0 \<dots> 9999999\<close>, as \<open>mod\<close> on \<open>int\<close> has.
\<close>

definition fallback_sku :: "(pystr \<Rightarrow> int) \<Rightarrow> pystr \<Rightarrow> pystr" where
  "fallback_sku py_hash url = str ''WOB-'' @ fmt_07d (py_hash url mod 10000000)"


section \<open>Price\<close>

text \<open>
  \<^verbatim>\<open>
  def _extract_price(self, price_text):
      if not price_text:
          return None
      price_match = re.search(r'\<euro>?(\d+\.\d{2})', price_text)
      if price_match:
          return float(price_match.group(1))
      price_match = re.search(r'(\d+)\.?(\d{2})?', price_text)
      if price_match:
          euros = price_match.group(1)
          cents = price_match.group(2) or '00'
          return float(f"{euros}.{cents}")
      return None
  \<close>

  The patterns are \<open>str\<close> patterns, so \<open>\d\<close> matches every decimal digit of Unicode
  (general category Nd), in any script, and \<open>float\<close> reads each such character by its
  digit value. Which characters are decimal digits, and with which value, is recorded in
  the Unicode database of the interpreter, a table outside the source. It is a
  parameter of the parser: \<open>dv c\<close> is the digit value of the code point \<open>c\<close>, and
  \<open>None\<close> when \<open>c\<close> is not a decimal digit.
\<close>

type_synonym digit_table = "nat \<Rightarrow> nat option"

definition is_decimal :: "digit_table \<Rightarrow> nat \<Rightarrow> bool" where
  \<comment> \<open>\<open>\d\<close> of Python's \<open>re\<close> on a \<open>str\<close> pattern\<close>
  "is_decimal dv c = (dv c \<noteq> None)"

text \<open>
  What every version of the database has: the ASCII digits with their values, no other
  decimal digit among the ASCII characters (so the dot is none), and the euro sign,
  a currency symbol, is none.
\<close>

definition decimal_table :: "digit_table \<Rightarrow> bool" where
  "decimal_table dv =
     ((\<forall>c. is_digit c \<longrightarrow> dv c = Some (c - 48))
      \<and> (\<forall>c. c < 128 \<and> \<not> is_digit c \<longrightarrow> dv c = None)
      \<and> dv 8364 = None)"

text \<open>
  The table of Unicode 14.0, which CPython 3.11 carries: 66 runs of ten consecutive
  code points with the values 0 to 9, listed by the code point of their zero (U+0030
  for ASCII, U+0660 for Arabic-Indic, and so on).
\<close>

definition decimal_zeros :: "nat list" where
  "decimal_zeros =
     [48, 1632, 1776, 1984, 2406, 2534, 2662, 2790, 2918, 3046, 3174, 3302, 3430, 3558,
      3664, 3792, 3872, 4160, 4240, 6112, 6160, 6470, 6608, 6784, 6800, 6992, 7088, 7232,
      7248, 42528, 43216, 43264, 43472, 43504, 43600, 44016, 65296, 66720, 68912, 69734,
      69872, 69942, 70096, 70384, 70736, 70864, 71248, 71360, 71472, 71904, 72016, 72784,
      73040, 73120, 92768, 92864, 93008, 120782, 120792, 120802, 120812, 120822, 123200,
      123632, 125264, 130032]"

definition unicode_decimal :: digit_table where
  "unicode_decimal c =
     (case find (\<lambda>z. z \<le> c \<and> c < z + 10) decimal_zeros of
        Some z \<Rightarrow> Some (c - z)
      | None \<Rightarrow> None)"

text \<open>
  \<open>re.search\<close> returns the leftmost match and each quantifier is greedy with
  backtracking. In \<open>\d+\.\d{2}\<close> the run of digits is followed by a literal dot, so a
  match takes the whole run of digits that starts where it starts: the dot is not a
  digit, and giving a digit back would put a digit where the dot must be.
  \<open>price_amount_at\<close> is the match of the group at the head of the text,
  \<open>price_first_at\<close> puts the optional euro sign in front (tried with the sign first,
  then without), \<open>price_first\<close> is the search.
\<close>

definition price_amount_at :: "digit_table \<Rightarrow> pystr \<Rightarrow> pystr option" where
  "price_amount_at dv s =
     (let ds = takeWhile (is_decimal dv) s in
      if ds = [] then None
      else (case dropWhile (is_decimal dv) s of
              p # d1 # d2 # _ \<Rightarrow>
                if p = 46 \<and> is_decimal dv d1 \<and> is_decimal dv d2 then Some (ds @ [46, d1, d2])
                else None
            | _ \<Rightarrow> None))"

definition price_first_at :: "digit_table \<Rightarrow> pystr \<Rightarrow> pystr option" where
  "price_first_at dv s =
     (case s of
        c # cs \<Rightarrow>
          if c = 8364 then
            (case price_amount_at dv cs of Some g \<Rightarrow> Some g | None \<Rightarrow> price_amount_at dv s)
          else price_amount_at dv s
      | [] \<Rightarrow> price_amount_at dv s)"

fun price_first :: "digit_table \<Rightarrow> pystr \<Rightarrow> pystr option" where
  "price_first dv [] = price_first_at dv []"
| "price_first dv (c # cs) =
     (case price_first_at dv (c # cs) of Some g \<Rightarrow> Some g | None \<Rightarrow> price_first dv cs)"

text \<open>
  The second pattern, \<open>(\d+)\.?(\d{2})?\<close>, matches wherever a digit stands, so the
  leftmost match starts at the first digit of the text. Everything after \<open>\d+\<close> is
  optional and greedy: the first group is the whole run of digits, a dot is taken when
  it follows, and the second group is the next two characters when both are digits,
  absent otherwise.
\<close>

definition price_second :: "digit_table \<Rightarrow> pystr \<Rightarrow> (pystr \<times> pystr option) option" where
  "price_second dv s =
     (let s1 = dropWhile (\<lambda>c. \<not> is_decimal dv c) s in
      if s1 = [] then None
      else
        (let euros = takeWhile (is_decimal dv) s1;
             r = dropWhile (is_decimal dv) s1;
             r' = (case r of p # t \<Rightarrow> if p = 46 then t else r | [] \<Rightarrow> r);
             cents = (case r' of
                        d1 # d2 # _ \<Rightarrow>
                          if is_decimal dv d1 \<and> is_decimal dv d2 then Some [d1, d2] else None
                      | _ \<Rightarrow> None)
         in Some (euros, cents)))"

text \<open>\<open>price_literal\<close> is the text handed to \<open>float\<close>: digits, a dot, two digits.\<close>

definition price_literal :: "digit_table \<Rightarrow> pystr option \<Rightarrow> pystr option" where
  "price_literal dv price_text =
     (case price_text of
        None \<Rightarrow> None
      | Some t \<Rightarrow>
          if t = [] then None
          else (case price_first dv t of
                  Some g \<Rightarrow> Some g
                | None \<Rightarrow>
                    (case price_second dv t of
                       Some (euros, g2) \<Rightarrow>
                         (let cents = (case g2 of
                                         Some c \<Rightarrow> if c \<noteq> [] then c else str ''00''
                                       | None \<Rightarrow> str ''00'')
                          in Some (euros @ [46] @ cents))
                     | None \<Rightarrow> None)))"

text \<open>
  \<open>float\<close> of such a text replaces every decimal digit by its value and rounds the
  number written to the nearest double (IEEE 754 binary64, ties to the even
  significand); a number too large for a double becomes \<open>inf\<close>, without an exception.
  \<open>decimal_number\<close> is the number written, as a fraction \<open>(p, d)\<close> of naturals.
  \<open>double_of\<close> is the rounding: with \<open>2 ^ e \<le> p / d < 2 ^ (e + 1)\<close> the doubles
  around \<open>p / d\<close> are the multiples of \<open>2 ^ (e - 52)\<close>, of \<open>2 ^ (- 1074)\<close> below the
  normal range, and the result is the nearest multiple, or \<open>inf\<close> when that reaches
  \<open>2 ^ 1024\<close>. The numbers written by a price are not negative, so neither a sign nor
  a negative zero arises.
\<close>

definition digits_value :: "digit_table \<Rightarrow> pystr \<Rightarrow> nat" where
  \<comment> \<open>the number written by a string of decimal digits\<close>
  "digits_value dv s = foldl (\<lambda>a c. 10 * a + (case dv c of Some d \<Rightarrow> d | None \<Rightarrow> 0)) 0 s"

definition decimal_number :: "digit_table \<Rightarrow> pystr \<Rightarrow> nat \<times> nat" where
  \<comment> \<open>the number written by \<open>digits.digits\<close>, numerator and denominator\<close>
  "decimal_number dv s =
     (let whole = takeWhile (\<lambda>c. c \<noteq> 46) s;
          cents = drop 1 (dropWhile (\<lambda>c. c \<noteq> 46) s)
      in (digits_value dv whole * 10 ^ length cents + digits_value dv cents, 10 ^ length cents))"

datatype pyfloat = Finite rat | Infinity

fun bit_length :: "nat \<Rightarrow> nat" where
  "bit_length n = (if n = 0 then 0 else Suc (bit_length (n div 2)))"

declare bit_length.simps [simp del]

definition pow2 :: "int \<Rightarrow> rat" where
  "pow2 k = (if 0 \<le> k then 2 ^ nat k else 1 / 2 ^ nat (- k))"

definition binary_exponent :: "nat \<Rightarrow> nat \<Rightarrow> int" where
  \<comment> \<open>the \<open>e\<close> with \<open>2 ^ e \<le> p / d < 2 ^ (e + 1)\<close>, for positive \<open>p\<close> and \<open>d\<close>\<close>
  "binary_exponent p d =
     (let e0 = int (bit_length p) - int (bit_length d) in
      if d * 2 ^ nat e0 \<le> p * 2 ^ nat (- e0) then e0 else e0 - 1)"

definition round_half_even :: "nat \<Rightarrow> nat \<Rightarrow> nat" where
  \<comment> \<open>the integer nearest to \<open>a / b\<close>, the even one of two equally near\<close>
  "round_half_even a b =
     (let n = a div b; r = a mod b in
      if 2 * r < b then n else if b < 2 * r then n + 1 else if even n then n else n + 1)"

definition double_of :: "nat \<times> nat \<Rightarrow> pyfloat" where
  "double_of x =
     (case x of (p, d) \<Rightarrow>
        if p = 0 then Finite 0
        else
          (let k = max (binary_exponent p d) (- 1022) - 52;
               n = round_half_even (p * 2 ^ nat (- k)) (d * 2 ^ nat k);
               y = of_nat n * pow2 k
           in if pow2 1024 \<le> y then Infinity else Finite y))"

definition extract_price :: "digit_table \<Rightarrow> pystr option \<Rightarrow> pyfloat option" where
  "extract_price dv price_text =
     map_option (\<lambda>g. double_of (decimal_number dv g)) (price_literal dv price_text)"


section \<open>Values returned by in-page scripts\<close>

text \<open>
  \<open>page.evaluate\<close> returns a JSON-serialisable value. Numbers are integers here:
  the code only tests them for zero and passes them on.
\<close>

datatype json =
    JNull
  | JBool bool
  | JNum int
  | JStr pystr
  | JArr "json list"
  | JObj "(pystr \<times> json) list"

fun js_truthy :: "json \<Rightarrow> bool" where
  \<comment> \<open>JavaScript: every object and array is true, also when empty\<close>
  "js_truthy JNull = False"
| "js_truthy (JBool b) = b"
| "js_truthy (JNum n) = (n \<noteq> 0)"
| "js_truthy (JStr s) = (s \<noteq> [])"
| "js_truthy (JArr xs) = True"
| "js_truthy (JObj kvs) = True"

fun py_truthy :: "json \<Rightarrow> bool" where
  \<comment> \<open>Python, on the value as \<open>page.evaluate\<close> hands it over: empty containers are false\<close>
  "py_truthy JNull = False"
| "py_truthy (JBool b) = b"
| "py_truthy (JNum n) = (n \<noteq> 0)"
| "py_truthy (JStr s) = (s \<noteq> [])"
| "py_truthy (JArr xs) = (xs \<noteq> [])"
| "py_truthy (JObj kvs) = (kvs \<noteq> [])"

fun js_prop :: "json \<Rightarrow> pystr \<Rightarrow> json" where
  \<comment> \<open>\<open>v.key\<close> for a value \<open>v\<close> that is not \<open>null\<close>; \<open>undefined\<close> is rendered as
      \<open>JNull\<close>, both being false. \<open>JSON.parse\<close> keeps the last of duplicate keys.\<close>
  "js_prop (JObj kvs) key = (case map_of (rev kvs) key of Some v \<Rightarrow> v | None \<Rightarrow> JNull)"
| "js_prop v key = JNull"

datatype 'a res = Raise | Ret 'a

datatype jsonld =
    NoScript           \<comment> \<open>no \<open>script[type="application/ld+json"]\<close> element\<close>
  | BadJson            \<comment> \<open>\<open>JSON.parse\<close> throws\<close>
  | Parsed json

datatype script = SkuScript | IsbnScript | ImageScript

text \<open>
  An item page, once loaded, as the extractor sees it through the page capability:
  what each query answers. Reading the page does not change the world.
  \<open>query sel\<close> is \<open>page.query_selector(sel)\<close> followed by \<open>text_content()\<close>: the
  outer \<open>res\<close> is the first call raising, the option the element missing, the inner
  \<open>res\<close> the second call raising, the inner option a text content of \<open>None\<close>.
  \<open>evaluate_raises\<close> tells which calls of \<open>page.evaluate\<close> raise.
  \<open>binding_found\<close> and \<open>publication_found\<close> are what \<open>_extract_binding\<close> and
  \<open>_extract_publication_details\<close> return on the page; both catch every exception.
\<close>

record item_dom =
  load_state_raises :: bool
  query :: "pystr \<Rightarrow> pystr option res option res"
  evaluate_raises :: "script \<Rightarrow> bool"
  sku_element :: "pystr option"
  json_ld :: jsonld
  body_text :: pystr
  details_wrapper :: "pystr option"
  media_img_src :: "pystr option"
  binding_found :: "pystr option"
  publication_found :: "pystr option \<times> pystr option"

text \<open>
  \<^verbatim>\<open>
  async def _get_text(self, page, selector):
      try:
          element = await page.query_selector(selector)
          if element:
              text = await element.text_content()
              return text.strip() if text else None
      except Exception as e: ...
      return None
  \<close>
\<close>

definition get_text :: "item_dom \<Rightarrow> pystr \<Rightarrow> pystr option" where
  "get_text page selector =
     (case query page selector of
        Raise \<Rightarrow> None
      | Ret None \<Rightarrow> None
      | Ret (Some Raise) \<Rightarrow> None
      | Ret (Some (Ret None)) \<Rightarrow> None
      | Ret (Some (Ret (Some text))) \<Rightarrow> if text \<noteq> [] then Some (py_strip text) else None)"


section \<open>Identifier resolution\<close>

text \<open>
  The third tier of the in-page script: \<open>pageText.match(/SKU:\s*([A-Z0-9-]+)/i)\<close>.
  With the \<open>i\<close> flag a letter of the pattern matches both cases. \<open>\s*\<close> takes all the
  white space there is: the group cannot start with white space.
\<close>

definition ci_eq :: "nat \<Rightarrow> nat \<Rightarrow> bool" where
  \<comment> \<open>\<open>c\<close> is the upper-case ASCII letter \<open>u\<close> or its lower case\<close>
  "ci_eq c u = (c = u \<or> c = u + 32)"

definition sku_char :: "nat \<Rightarrow> bool" where
  "sku_char c = ((65 \<le> c \<and> c \<le> 90) \<or> (97 \<le> c \<and> c \<le> 122) \<or> is_digit c \<or> c = 45)"

definition sku_text_at :: "pystr \<Rightarrow> pystr option" where
  "sku_text_at s =
     (case s of
        c1 # c2 # c3 # c4 # rest \<Rightarrow>
          if ci_eq c1 83 \<and> ci_eq c2 75 \<and> ci_eq c3 85 \<and> c4 = 58 then
            (let g = takeWhile sku_char (dropWhile js_isspace rest) in
             if g \<noteq> [] then Some g else None)
          else None
      | _ \<Rightarrow> None)"

fun sku_text_search :: "pystr \<Rightarrow> pystr option" where
  "sku_text_search [] = None"
| "sku_text_search (c # cs) =
     (case sku_text_at (c # cs) of Some g \<Rightarrow> Some g | None \<Rightarrow> sku_text_search cs)"

definition jsonld_sku :: "jsonld \<Rightarrow> json option" where
  \<comment> \<open>\<open>data.sku\<close>, then \<open>data.offers.sku\<close>; reading a property of \<open>null\<close> throws inside
      the script's own \<open>try\<close>, which goes on to the page text\<close>
  "jsonld_sku j =
     (case j of
        Parsed data \<Rightarrow>
          if data = JNull then None
          else if js_truthy (js_prop data (str ''sku'')) then Some (js_prop data (str ''sku''))
          else if js_truthy (js_prop data (str ''offers''))
                  \<and> js_truthy (js_prop (js_prop data (str ''offers'')) (str ''sku''))
               then Some (js_prop (js_prop data (str ''offers'')) (str ''sku''))
          else None
      | _ \<Rightarrow> None)"

definition sku_script :: "item_dom \<Rightarrow> json" where
  "sku_script page =
     (case sku_element page of
        Some t \<Rightarrow> JStr (js_trim t)
      | None \<Rightarrow>
          (case jsonld_sku (json_ld page) of
             Some v \<Rightarrow> v
           | None \<Rightarrow>
               (case sku_text_search (body_text page) of
                  Some g \<Rightarrow> JStr (js_trim g)
                | None \<Rightarrow> JNull)))"

text \<open>
  \<^verbatim>\<open>
  async def _extract_sku(self, page, url):
      sku = self._extract_sku_from_url(url)
      if sku:
          return sku
      try:
          sku = await page.evaluate(...)
          if sku:
              return sku
      except Exception as e: ...
      fallback_sku = f"WOB-{hash(url) % 10000000:07d}"
      return fallback_sku
  \<close>
\<close>

definition extract_sku :: "(pystr \<Rightarrow> int) \<Rightarrow> item_dom \<Rightarrow> pystr \<Rightarrow> json" where
  "extract_sku py_hash page url =
     (case extract_sku_from_url url of
        Some sku \<Rightarrow> JStr sku
      | None \<Rightarrow>
          if \<not> evaluate_raises page SkuScript \<and> py_truthy (sku_script page)
          then sku_script page
          else JStr (fallback_sku py_hash url))"


section \<open>ISBN\<close>

text \<open>
  The script matches \<open>/ISBN[:\s]*(97[89]\d{10}|\d{9}[0-9X])/i\<close>, first against the text
  of the details container, last against the text of the whole page; between the two
  it reads \<open>data.isbn\<close> of the structured data. The group starts with a digit, so
  \<open>[:\s]*\<close> takes every colon and white-space character after the word. The first
  alternative is tried first. With the \<open>i\<close> flag the last character of the second
  alternative may be a lower-case \<open>x\<close>.
\<close>

definition isbn13_at :: "pystr \<Rightarrow> pystr option" where
  "isbn13_at r =
     (case r of
        a # b # c # rest \<Rightarrow>
          if a = 57 \<and> b = 55 \<and> (c = 56 \<or> c = 57) \<and> length (take 10 rest) = 10
             \<and> list_all is_digit (take 10 rest)
          then Some (a # b # c # take 10 rest) else None
      | _ \<Rightarrow> None)"

definition isbn10_at :: "pystr \<Rightarrow> pystr option" where
  "isbn10_at r =
     (if length (take 10 r) = 10 \<and> list_all is_digit (take 9 r)
         \<and> (is_digit (r ! 9) \<or> ci_eq (r ! 9) 88)
      then Some (take 10 r) else None)"

definition isbn_at :: "pystr \<Rightarrow> pystr option" where
  "isbn_at s =
     (case s of
        c1 # c2 # c3 # c4 # rest \<Rightarrow>
          if ci_eq c1 73 \<and> ci_eq c2 83 \<and> ci_eq c3 66 \<and> ci_eq c4 78 then
            (let r = dropWhile (\<lambda>c. c = 58 \<or> js_isspace c) rest in
             case isbn13_at r of Some g \<Rightarrow> Some g | None \<Rightarrow> isbn10_at r)
          else None
      | _ \<Rightarrow> None)"

fun isbn_search :: "pystr \<Rightarrow> pystr option" where
  "isbn_search [] = None"
| "isbn_search (c # cs) =
     (case isbn_at (c # cs) of Some g \<Rightarrow> Some g | None \<Rightarrow> isbn_search cs)"

definition jsonld_isbn :: "jsonld \<Rightarrow> json option" where
  "jsonld_isbn j =
     (case j of
        Parsed data \<Rightarrow>
          if data = JNull then None
          else if js_truthy (js_prop data (str ''isbn'')) then Some (js_prop data (str ''isbn''))
          else None
      | _ \<Rightarrow> None)"

definition isbn_script :: "item_dom \<Rightarrow> json" where
  "isbn_script page =
     (case (case details_wrapper page of Some t \<Rightarrow> isbn_search t | None \<Rightarrow> None) of
        Some g \<Rightarrow> JStr (js_trim g)
      | None \<Rightarrow>
          (case jsonld_isbn (json_ld page) of
             Some v \<Rightarrow> v
           | None \<Rightarrow>
               (case isbn_search (body_text page) of
                  Some g \<Rightarrow> JStr (js_trim g)
                | None \<Rightarrow> JNull)))"

text \<open>
  \<^verbatim>\<open>
  async def _extract_isbn(self, page):
      try:
          isbn = await page.evaluate(...)
          if isbn:
              isbn = re.sub(r'[^0-9X]', '', isbn)
              return isbn
      except Exception as e: ...
      return None
  \<close>
  \<open>re.sub\<close> on a value that is not a string raises \<open>TypeError\<close>, which the handler
  catches.
\<close>

definition extract_isbn :: "item_dom \<Rightarrow> pystr option" where
  "extract_isbn page =
     (if evaluate_raises page IsbnScript then None
      else if py_truthy (isbn_script page) then
        (case isbn_script page of
           JStr s \<Rightarrow> Some (filter (\<lambda>c. is_digit c \<or> c = 88) s)
         | _ \<Rightarrow> None)
      else None)"


section \<open>The item extractor\<close>

record book_data =
  title :: pystr
  author :: pystr
  isbn :: "pystr option"
  sku :: json
  wob_price :: "pyfloat option"
  wob_url :: pystr
  condition :: "pystr option"
  binding :: "pystr option"
  publisher :: "pystr option"
  publication_year :: "pystr option"
  description :: "pystr option"
  image_url :: "pystr option"

text \<open>
  The body of the \<open>try\<close> block of \<open>scrape_book\<close>, up to the record: \<open>Raise\<close> when a
  call that no helper guards raises (waiting for the load state, the image script),
  \<open>Ret None\<close> when the title is missing or empty, the record otherwise.
  \<^verbatim>\<open>
  await book_page.wait_for_load_state("domcontentloaded")
  sku = await self._extract_sku(book_page, book_url)
  title = await self._get_text(book_page, "h1.product__title")
  if not title:
      ...
      return None
  author = await self._get_text(book_page, ".product-author") or "Unknown"
  price_text = await self._get_text(book_page, ".price-item--regular")
  price = self._extract_price(price_text)
  isbn = await self._extract_isbn(book_page)
  condition = await self._get_text(book_page, ".product-condition-text")
  binding = await self._extract_binding(book_page)
  description = await self._get_text(book_page, ".product__description")
  image_url = await book_page.evaluate(...)
  publisher, publication_year = await self._extract_publication_details(book_page)
  book_data = { ... }
  \<close>
\<close>

definition book_fields :: "(pystr \<Rightarrow> int) \<Rightarrow> item_dom \<Rightarrow> pystr \<Rightarrow> book_data option res" where
  "book_fields py_hash page book_url =
     (if load_state_raises page then Raise
      else
        (let sku_v = extract_sku py_hash page book_url in
         case get_text page (str ''h1.product__title'') of
           None \<Rightarrow> Ret None
         | Some title_v \<Rightarrow>
             if title_v = [] then Ret None
             else
               (let author_v = (case get_text page (str ''.product-author'') of
                                  Some a \<Rightarrow> if a \<noteq> [] then a else str ''Unknown''
                                | None \<Rightarrow> str ''Unknown'');
                    price_text = get_text page (str ''.price-item--regular'');
                    price = extract_price unicode_decimal price_text;
                    isbn_v = extract_isbn page;
                    condition_v = get_text page (str ''.product-condition-text'');
                    binding_v = binding_found page;
                    description_v = get_text page (str ''.product__description'')
                in
                  if evaluate_raises page ImageScript then Raise
                  else Ret (Some \<lparr>title = title_v, author = author_v, isbn = isbn_v, sku = sku_v,
                                  wob_price = price, wob_url = book_url, condition = condition_v,
                                  binding = binding_v, publisher = fst (publication_found page),
                                  publication_year = snd (publication_found page),
                                  description = description_v,
                                  image_url = media_img_src page\<rparr>))))"


section \<open>The collaborators\<close>

text \<open>
  The browser session (\<open>BaseScraper\<close>), the database functions and the configuration
  are not part of the sources. They are parameters: each call takes the state of the
  outside world and returns its answer with the new state; \<open>Raise\<close> is the call
  raising an exception. A response carries what the loaded page shows.
  \<open>initialize\<close> answers whether \<open>self.browser\<close> and \<open>self.context\<close> are both set
  afterwards, \<open>new_page\<close> whether the page it returns is true. \<open>random.uniform\<close>,
  \<open>asyncio.sleep\<close> and the logger have no part in what is proved and are left out.
\<close>

record 'd response =
  ok :: bool
  status :: int
  loaded :: 'd

record listing_dom =
  listing_load_raises :: bool
  link_hrefs :: "pystr list res"

record book_row = book_data +
  category :: pystr
  subcategory :: "pystr option"

record 'w env =
  target_url :: pystr
  run_hash :: "pystr \<Rightarrow> int"
  initialize :: "'w \<Rightarrow> bool res \<times> 'w"
  close :: "'w \<Rightarrow> unit res \<times> 'w"
  new_page :: "'w \<Rightarrow> bool res \<times> 'w"
  page_goto :: "pystr \<Rightarrow> 'w \<Rightarrow> listing_dom response option res \<times> 'w"
  navigate :: "pystr \<Rightarrow> 'w \<Rightarrow> item_dom response option res \<times> 'w"
  page_close :: "'w \<Rightarrow> unit res \<times> 'w"
  get_book_by_sku :: "pystr \<Rightarrow> 'w \<Rightarrow> book_row option res \<times> 'w"
  add_book :: "book_row \<Rightarrow> 'w \<Rightarrow> int option res \<times> 'w"

text \<open>
  The state of one run: the three local variables of \<open>scrape_new_arrivals\<close>, the
  outside world, and a record of the calls made to the collaborators, oldest first.
  The record of calls is not in the source; it is what the properties on "never
  navigates" and "never handed to persistence" speak about.
\<close>

datatype event =
    Goto pystr             \<comment> \<open>\<open>page.goto\<close> of a listing page\<close>
  | Lookup pystr           \<comment> \<open>\<open>get_book_by_sku\<close>\<close>
  | Scrape pystr           \<comment> \<open>\<open>scrape_book\<close> entered\<close>
  | Navigate pystr         \<comment> \<open>\<open>self.navigate\<close> to an item page\<close>
  | AddBook book_row       \<comment> \<open>\<open>add_book\<close>\<close>

record 'w crawl =
  scraped_count :: int
  skipped_count :: int
  page_num :: int
  world :: 'w
  trace :: "event list"

definition call :: "('w \<Rightarrow> 'a \<times> 'w) \<Rightarrow> 'w crawl \<Rightarrow> 'a \<times> 'w crawl" where
  "call f st = (case f (world st) of (r, w') \<Rightarrow> (r, st\<lparr>world := w'\<rparr>))"

definition log_event :: "event \<Rightarrow> 'w crawl \<Rightarrow> 'w crawl" where
  "log_event e st = st\<lparr>trace := trace st @ [e]\<rparr>"

definition close_page_then ::
  "'w env \<Rightarrow> book_data option res \<Rightarrow> 'w crawl \<Rightarrow> book_data option res \<times> 'w crawl" where
  \<comment> \<open>\<open>await book_page.close()\<close> followed by \<open>return\<close>, outside any handler\<close>
  "close_page_then e v st =
     (case call (page_close e) st of
        (Raise, st') \<Rightarrow> (Raise, st')
      | (Ret _, st') \<Rightarrow> (v, st'))"

text \<open>
  \<^verbatim>\<open>
  async def scrape_book(self, book_url):
      book_page = await self.new_page()
      if not book_page:
          return None
      response = await self.navigate(book_page, book_url)
      if not response or not response.ok:
          await book_page.close()
          return None
      try:
          ...                       # book_fields
          await book_page.close()
          return book_data          # or None when the title is missing
      except Exception as e:
          await book_page.close()
          return None
  \<close>
  The \<open>close\<close> before each \<open>return\<close> of the \<open>try\<close> block is inside it: when it raises,
  the handler runs, closes again and returns \<open>None\<close>.
\<close>

definition scrape_book ::
  "'w env \<Rightarrow> pystr \<Rightarrow> 'w crawl \<Rightarrow> book_data option res \<times> 'w crawl" where
  "scrape_book e book_url st0 =
     (case call (new_page e) (log_event (Scrape book_url) st0) of
        (Raise, st1) \<Rightarrow> (Raise, st1)
      | (Ret False, st1) \<Rightarrow> (Ret None, st1)
      | (Ret True, st1) \<Rightarrow>
          (case call (navigate e book_url) (log_event (Navigate book_url) st1) of
             (Raise, st2) \<Rightarrow> (Raise, st2)
           | (Ret None, st2) \<Rightarrow> close_page_then e (Ret None) st2
           | (Ret (Some resp), st2) \<Rightarrow>
               if \<not> ok resp then close_page_then e (Ret None) st2
               else
                 (case book_fields (run_hash e) (loaded resp) book_url of
                    Raise \<Rightarrow> close_page_then e (Ret None) st2
                  | Ret v \<Rightarrow>
                      (case call (page_close e) st2 of
                         (Ret _, st3) \<Rightarrow> (Ret v, st3)
                       | (Raise, st3) \<Rightarrow> close_page_then e (Ret None) st3))))"


section \<open>The crawl\<close>

text \<open>
  \<^verbatim>\<open>
  async def _is_book_in_database(self, sku):
      if not sku:
          return False
      book = get_book_by_sku(sku)
      return book is not None
  \<close>
\<close>

definition is_book_in_database :: "'w env \<Rightarrow> pystr \<Rightarrow> 'w crawl \<Rightarrow> bool res \<times> 'w crawl" where
  "is_book_in_database e sku_v st =
     (if sku_v = [] then (Ret False, st)
      else (case call (get_book_by_sku e sku_v) (log_event (Lookup sku_v) st) of
              (Raise, st') \<Rightarrow> (Raise, st')
            | (Ret book, st') \<Rightarrow> (Ret (book \<noteq> None), st')))"

datatype 'w step =
    Next "'w crawl"       \<comment> \<open>the loop goes on (or is left by \<open>break\<close>)\<close>
  | Abort "'w crawl"      \<comment> \<open>an exception leaves the loops for the handler of the run\<close>

definition id_truthy :: "int option \<Rightarrow> bool" where
  \<comment> \<open>\<open>if book_id:\<close>\<close>
  "id_truthy book_id = (case book_id of None \<Rightarrow> False | Some n \<Rightarrow> n \<noteq> 0)"

text \<open>
  The \<open>try\<close> statement of the item loop:
  \<^verbatim>\<open>
  try:
      book_data = await self.scrape_book(book_url)
      if book_data and book_data.get("title"):
          book_data.update({"category": "Rare Non-Fiction", "subcategory": None})
          book_id = add_book(book_data)
          if book_id:
              scraped_count += 1
  except Exception as e:
      self.logger.error(...)
  \<close>
\<close>

definition with_category :: "book_data \<Rightarrow> book_row" where
  \<comment> \<open>\<open>book_data.update({"category": "Rare Non-Fiction", "subcategory": None})\<close>\<close>
  "with_category bd =
     book_data.extend bd \<lparr>category = str ''Rare Non-Fiction'', subcategory = None\<rparr>"

definition process_book :: "'w env \<Rightarrow> pystr \<Rightarrow> 'w crawl \<Rightarrow> 'w crawl" where
  "process_book e book_url st =
     (case scrape_book e book_url st of
        (Raise, st1) \<Rightarrow> st1
      | (Ret None, st1) \<Rightarrow> st1
      | (Ret (Some bd), st1) \<Rightarrow>
          if title bd \<noteq> [] then
            (let row = with_category bd
             in case call (add_book e row) (log_event (AddBook row) st1) of
                  (Raise, st2) \<Rightarrow> st2
                | (Ret book_id, st2) \<Rightarrow>
                    if id_truthy book_id
                    then st2\<lparr>scraped_count := scraped_count st2 + 1\<rparr>
                    else st2)
          else st1)"

text \<open>
  One pass of the body of \<open>for book_url in book_links\<close>, after the test of the budget:
  \<^verbatim>\<open>
  sku = self._extract_sku_from_url(book_url)
  if sku and await self._is_book_in_database(sku):
      skipped_count += 1
      continue
  delay = random.uniform(SCRAPE_DELAY_MIN, SCRAPE_DELAY_MAX)
  await asyncio.sleep(delay)
  try: ...
  \<close>
\<close>

definition item_step :: "'w env \<Rightarrow> pystr \<Rightarrow> 'w crawl \<Rightarrow> 'w step" where
  "item_step e book_url st =
     (case extract_sku_from_url book_url of
        None \<Rightarrow> Next (process_book e book_url st)
      | Some sku_v \<Rightarrow>
          if sku_v = [] then Next (process_book e book_url st)
          else
            (case is_book_in_database e sku_v st of
               (Raise, st1) \<Rightarrow> Abort st1
             | (Ret True, st1) \<Rightarrow> Next (st1\<lparr>skipped_count := skipped_count st1 + 1\<rparr>)
             | (Ret False, st1) \<Rightarrow> Next (process_book e book_url st1)))"

fun item_loop :: "'w env \<Rightarrow> int \<Rightarrow> pystr list \<Rightarrow> 'w crawl \<Rightarrow> 'w step" where
  "item_loop e max_books [] st = Next st"
| "item_loop e max_books (book_url # rest) st =
     (if scraped_count st \<ge> max_books then Next st
      else (case item_step e book_url st of
              Abort st' \<Rightarrow> Abort st'
            | Next st' \<Rightarrow> item_loop e max_books rest st'))"

definition current_page_url :: "pystr \<Rightarrow> int \<Rightarrow> pystr" where
  "current_page_url target n =
     (if n > 1 then
        (if 63 \<in> set target then target @ str ''&page='' @ py_str_int n
         else target @ str ''?page='' @ py_str_int n)
      else target)"

definition extract_book_links :: "listing_dom \<Rightarrow> pystr list" where
  \<comment> \<open>\<open>return links if links else []\<close>, and \<open>[]\<close> when the script raises\<close>
  "extract_book_links page =
     (case link_hrefs page of Raise \<Rightarrow> [] | Ret links \<Rightarrow> if links \<noteq> [] then links else [])"

text \<open>
  The \<open>while scraped_count < max_books\<close> loop. Nothing bounds the number of listing
  pages, so the loop need not end: the first argument counts the iterations still
  allowed, and \<open>None\<close> is the loop still running when they are used up.
\<close>

fun crawl_pages :: "nat \<Rightarrow> 'w env \<Rightarrow> int \<Rightarrow> 'w crawl \<Rightarrow> 'w step option" where
  "crawl_pages fuel e max_books st =
     (if \<not> scraped_count st < max_books then Some (Next st)
      else
        (case fuel of
           0 \<Rightarrow> None
         | Suc fuel' \<Rightarrow>
             (let url = current_page_url (target_url e) (page_num st) in
              case call (page_goto e url) (log_event (Goto url) st) of
                (Raise, st1) \<Rightarrow> Some (Abort st1)
              | (Ret None, st1) \<Rightarrow> Some (Next st1)
              | (Ret (Some resp), st1) \<Rightarrow>
                  if \<not> ok resp then Some (Next st1)
                  else if listing_load_raises (loaded resp) then Some (Abort st1)
                  else
                    (let book_links = extract_book_links (loaded resp) in
                     if book_links = [] then Some (Next st1)
                     else
                       (case item_loop e max_books book_links st1 of
                          Abort st2 \<Rightarrow> Some (Abort st2)
                        | Next st2 \<Rightarrow>
                            if scraped_count st2 < max_books
                            then crawl_pages fuel' e max_books (st2\<lparr>page_num := page_num st2 + 1\<rparr>)
                            else Some (Next st2))))))"

declare crawl_pages.simps [simp del]

datatype run_result =
    Raised               \<comment> \<open>an exception leaves \<open>scrape_new_arrivals\<close>\<close>
  | Returned int         \<comment> \<open>the value of \<open>return\<close>\<close>

definition finish :: "'w env \<Rightarrow> 'w crawl \<Rightarrow> run_result \<times> 'w crawl" where
  \<comment> \<open>the \<open>finally\<close> clause, the last log line and \<open>return scraped_count\<close>\<close>
  "finish e st =
     (case call (close e) st of
        (Raise, st') \<Rightarrow> (Raised, st')
      | (Ret _, st') \<Rightarrow> (Returned (scraped_count st'), st'))"

definition initial :: "'w \<Rightarrow> 'w crawl" where
  "initial w = \<lparr>scraped_count = 0, skipped_count = 0, page_num = 1, world = w, trace = []\<rparr>"

text \<open>
  \<^verbatim>\<open>
  async def scrape_new_arrivals(self, max_books=MAX_BOOKS_PER_RUN):
      await self.initialize()
      if not self.browser or not self.context:
          await self.close()
          return 0
      scraped_count = 0; skipped_count = 0; page_num = 1
      try:
          page = await self.new_page()
          if not page:
              await self.close()
              return 0
          while scraped_count < max_books: ...
          await page.close()
      except Exception as e:
          self.logger.error(...)
      finally:
          await self.close()
      self.logger.info(f"Completed scraping. Added {scraped_count} new books, "
                       f"skipped {skipped_count} existing books")
      return scraped_count
  \<close>
  The second component of the result is the state when the function is left: its
  \<open>skipped_count\<close> is the number written to the log.
\<close>

definition scrape_new_arrivals ::
  "nat \<Rightarrow> 'w env \<Rightarrow> int \<Rightarrow> 'w \<Rightarrow> (run_result \<times> 'w crawl) option" where
  "scrape_new_arrivals fuel e max_books w =
     (case call (initialize e) (initial w) of
        (Raise, st0) \<Rightarrow> Some (Raised, st0)
      | (Ret False, st0) \<Rightarrow>
          (case call (close e) st0 of
             (Raise, st1) \<Rightarrow> Some (Raised, st1)
           | (Ret _, st1) \<Rightarrow> Some (Returned 0, st1))
      | (Ret True, st0) \<Rightarrow>
          (case call (new_page e) st0 of
             (Raise, st1) \<Rightarrow> Some (finish e st1)
           | (Ret False, st1) \<Rightarrow>
               (case call (close e) st1 of
                  (Raise, st2) \<Rightarrow> Some (finish e st2)
                | (Ret _, st2) \<Rightarrow>
                    (case call (close e) st2 of
                       (Raise, st3) \<Rightarrow> Some (Raised, st3)
                     | (Ret _, st3) \<Rightarrow> Some (Returned 0, st3)))
           | (Ret True, st1) \<Rightarrow>
               (case crawl_pages fuel e max_books st1 of
                  None \<Rightarrow> None
                | Some (Abort st2) \<Rightarrow> Some (finish e st2)
                | Some (Next st2) \<Rightarrow>
                    (case call (page_close e) st2 of (_, st3) \<Rightarrow> Some (finish e st3)))))"


section \<open>A shop and a store to run the crawl on\<close>

text \<open>
  Modelled from the spec: the persistence collaborator (\<open>database.add_book\<close> and
  \<open>database.get_book_by_sku\<close> are not in the sources). Its interface is
  \<open>findByIdentifier(id) -> optional record\<close> and
  \<open>insert(record) -> newId | DuplicateKeyError\<close>: the store is the list of the records
  inserted so far, a record is found by its identifier, and inserting a record whose
  identifier is already stored is rejected. \<open>on_duplicate\<close> is the answer
  \<open>add_book\<close> gives then (no id, or an exception).

  The site answers each URL always in the same way; session, pages and closing never
  fail. This is the world the examples run in; the properties of the crawl itself are
  proved for every collaborator.
\<close>

record site =
  site_url :: pystr
  listing_at :: "pystr \<Rightarrow> listing_dom response option res"
  item_at :: "pystr \<Rightarrow> item_dom response option res"

type_synonym store = "book_row list"

definition store_find :: "json \<Rightarrow> store \<Rightarrow> book_row option" where
  "store_find k db = find (\<lambda>row. sku row = k) db"

definition store_insert :: "int option res \<Rightarrow> book_row \<Rightarrow> store \<Rightarrow> int option res \<times> store" where
  "store_insert on_duplicate row db =
     (if store_find (sku row) db \<noteq> None then (on_duplicate, db)
      else (Ret (Some (int (length db) + 1)), db @ [row]))"

definition shop_env :: "site \<Rightarrow> (pystr \<Rightarrow> int) \<Rightarrow> int option res \<Rightarrow> store env" where
  "shop_env s h on_duplicate =
     \<lparr>target_url = site_url s,
      run_hash = h,
      initialize = (\<lambda>w. (Ret True, w)),
      close = (\<lambda>w. (Ret (), w)),
      new_page = (\<lambda>w. (Ret True, w)),
      page_goto = (\<lambda>u w. (listing_at s u, w)),
      navigate = (\<lambda>u w. (item_at s u, w)),
      page_close = (\<lambda>w. (Ret (), w)),
      get_book_by_sku = (\<lambda>k w. (Ret (store_find (JStr k) w), w)),
      add_book = store_insert on_duplicate\<rparr>"

definition page_with :: "(pystr \<times> pystr) list \<Rightarrow> item_dom" where
  \<comment> \<open>an item page on which the listed selectors have the listed text\<close>
  "page_with texts =
     \<lparr>load_state_raises = False,
      query = (\<lambda>sel. case map_of texts sel of
                       Some t \<Rightarrow> Ret (Some (Ret (Some t)))
                     | None \<Rightarrow> Ret None),
      evaluate_raises = (\<lambda>_. False),
      sku_element = None,
      json_ld = NoScript,
      body_text = [],
      details_wrapper = None,
      media_img_src = None,
      binding_found = None,
      publication_found = (None, None)\<rparr>"

definition ok_response :: "'d \<Rightarrow> 'd response option res" where
  "ok_response d = Ret (Some \<lparr>ok = True, status = 200, loaded = d\<rparr>)"

definition not_found :: "'d \<Rightarrow> 'd response option res" where
  "not_found d = Ret (Some \<lparr>ok = False, status = 404, loaded = d\<rparr>)"

definition listing_of :: "pystr list \<Rightarrow> listing_dom" where
  "listing_of links = \<lparr>listing_load_raises = False, link_hrefs = Ret links\<rparr>"

definition stored :: "pystr \<Rightarrow> book_row" where
  \<comment> \<open>a record as a former run left it, with the given identifier\<close>
  "stored k =
     \<lparr>title = str ''Old'', author = str ''Unknown'', isbn = None, sku = JStr k,
      wob_price = None, wob_url = [], condition = None, binding = None, publisher = None,
      publication_year = None, description = None, image_url = None,
      category = str ''Rare Non-Fiction'', subcategory = None\<rparr>"

text \<open>
  The scenario of the specification: the first listing page has three links, the
  second link resolves to an identifier already in the store, the first and the third
  have a title and the prices \<open>\<euro>9.99\<close> and \<open>20\<close>; the second listing page has no links.
\<close>

definition demo_site :: site where
  "demo_site =
     \<lparr>site_url = str ''https://shop/new'',
      listing_at = (\<lambda>u.
        if u = str ''https://shop/new''
        then ok_response (listing_of [str ''https://shop/p/book-one'',
                                      str ''https://shop/p/book-two'',
                                      str ''https://shop/p/book-three''])
        else ok_response (listing_of [])),
      item_at = (\<lambda>u.
        if u = str ''https://shop/p/book-one''
        then ok_response (page_with [(str ''h1.product__title'', str ''One''),
                                     (str ''.price-item--regular'', 8364 # str ''9.99'')])
        else if u = str ''https://shop/p/book-three''
        then ok_response (page_with [(str ''h1.product__title'', str ''Three''),
                                     (str ''.price-item--regular'', str ''20'')])
        else not_found (page_with []))\<rparr>"

definition demo_env :: "store env" where
  "demo_env = shop_env demo_site (\<lambda>_. 0) (Ret None)"

definition demo_store :: store where
  "demo_store = [stored (str ''book-two'')]"


text \<open>
  A second shop: one item, whose URL ends in a short segment and whose page names its
  identifier in a \<open>data-sku\<close> element. The store already holds that identifier.
\<close>

definition short_site :: site where
  "short_site =
     \<lparr>site_url = str ''https://shop/new'',
      listing_at = (\<lambda>u.
        if u = str ''https://shop/new'' then ok_response (listing_of [str ''https://shop/p/ab''])
        else ok_response (listing_of [])),
      item_at = (\<lambda>u.
        if u = str ''https://shop/p/ab''
        then ok_response ((page_with [(str ''h1.product__title'', str ''Dup'')])
                            \<lparr>sku_element := Some (str ''SKU-77'')\<rparr>)
        else not_found (page_with []))\<rparr>"

definition short_env :: "store env" where
  "short_env = shop_env short_site (\<lambda>_. 0) (Ret None)"

definition short_store :: store where
  "short_store = [stored (str ''SKU-77'')]"




definition dup_book :: book_data where
  "dup_book = \<lparr>title = str ''Dup'', author = str ''Unknown'', isbn = None,
           sku = JStr (str ''SKU-77''), wob_price = None, wob_url = str ''https://shop/p/ab'',
           condition = None, binding = None, publisher = None, publication_year = None,
           description = None, image_url = None\<rparr>"

text \<open>
  Every record that a list of calls hands to \<open>add_book\<close> has a title that is not empty.
\<close>

definition only_titled :: "event list \<Rightarrow> bool" where
  "only_titled evs = list_all (\<lambda>ev. case ev of AddBook row \<Rightarrow> title row \<noteq> [] | _ \<Rightarrow> True) evs"


text \<open>A store that already holds the three identifiers of the first shop.\<close>

definition full_store :: store where
  "full_store = [stored (str ''book-one''), stored (str ''book-two''), stored (str ''book-three'')]"

text \<open>
  For a link of a shop: the identifier the item extractor resolves on its page, and
  whether the page loads and shows a title. \<open>scraped_urls\<close> lists the URLs for which
  the item extractor was entered, in the order of the calls.
\<close>

definition resolved_sku :: "site \<Rightarrow> (pystr \<Rightarrow> int) \<Rightarrow> pystr \<Rightarrow> json" where
  "resolved_sku s h u =
     (case item_at s u of
        Ret (Some resp) \<Rightarrow> extract_sku h (loaded resp) u
      | _ \<Rightarrow> JNull)"

definition extractable :: "site \<Rightarrow> pystr \<Rightarrow> bool" where
  "extractable s u =
     (case item_at s u of
        Ret (Some resp) \<Rightarrow>
          ok resp \<and> \<not> load_state_raises (loaded resp)
          \<and> \<not> evaluate_raises (loaded resp) ImageScript
          \<and> (case get_text (loaded resp) (str ''h1.product__title'') of
                Some t \<Rightarrow> t \<noteq> []
              | None \<Rightarrow> False)
      | _ \<Rightarrow> False)"

fun scraped_urls :: "event list \<Rightarrow> pystr list" where
  "scraped_urls [] = []"
| "scraped_urls (Scrape u # evs) = u # scraped_urls evs"
| "scraped_urls (ev # evs) = scraped_urls evs"

text \<open>A shop whose first listing page has eight links, each to a page with a title.\<close>

definition eight_links :: "pystr list" where
  "eight_links = map (\<lambda>c. str ''https://shop/p/item-0'' @ [c]) [49, 50, 51, 52, 53, 54, 55, 56]"

definition eight_site :: site where
  "eight_site =
     \<lparr>site_url = str ''https://shop/new'',
      listing_at = (\<lambda>u.
        if u = str ''https://shop/new'' then ok_response (listing_of eight_links)
        else ok_response (listing_of [])),
      item_at = (\<lambda>u. ok_response (page_with [(str ''h1.product__title'', str ''A title'')]))\<rparr>"


text \<open>
  Some match of the ISBN pattern in the text \<open>pre @ rest\<close> starts inside \<open>pre\<close>:
  then the leftmost match is not one that starts where \<open>rest\<close> starts.
\<close>

fun isbn_match_within :: "pystr \<Rightarrow> pystr \<Rightarrow> bool" where
  "isbn_match_within [] rest = False"
| "isbn_match_within (c # pre) rest =
     (case isbn_at (c # pre @ rest) of
        Some g \<Rightarrow> True
      | None \<Rightarrow> isbn_match_within pre rest)"

text \<open>An item page with nothing on it but the given text of the page.\<close>

definition isbn_page :: "pystr \<Rightarrow> item_dom" where
  "isbn_page t = (page_with [])\<lparr>body_text := t\<rparr>"


section \<open>Properties of the fallback identifier\<close>



lemma dec_value_snoc: "dec_value (s @ [c]) = 10 * dec_value s + (c - 48)"
  by simp


lemma foldl_zeros: "foldl (\<lambda>a c. 10 * a + (c - 48)) 0 (replicate k (48::nat)) = (0::nat)"
  by (induction k) simp_all

lemma dec_value_pad: "dec_value (replicate k 48 @ s) = dec_value s"
  by (simp add: foldl_zeros)








section \<open>Properties of the price parser\<close>

lemma takeWhile_none: "\<forall>c\<in>set s. \<not> P c \<Longrightarrow> takeWhile P s = []"
  by (cases s) auto

lemma double_of_steps:
  assumes "p \<noteq> 0" and "max (binary_exponent p d) (- 1022) - 52 = k"
    and "round_half_even (p * 2 ^ nat (- k)) (d * 2 ^ nat k) = n"
    and "\<not> pow2 1024 \<le> of_nat n * pow2 k" and "of_nat n * pow2 k = y"
  shows "double_of (p, d) = Finite y"
  using assms by (simp only: double_of_def prod.case Let_def if_False)

lemma double_of_1234: "double_of (1234, 100) = Finite (3473401212609495 / 281474976710656)"
proof (rule double_of_steps)
  show "(1234::nat) \<noteq> 0" by simp
  show "max (binary_exponent 1234 100) (- 1022) - 52 = - 49"
    by (simp add: binary_exponent_def bit_length.simps)
  show "round_half_even (1234 * 2 ^ nat (- (- 49))) (100 * 2 ^ nat (- 49)) = 6946802425218990"
    by (simp add: round_half_even_def)
  show "\<not> pow2 1024 \<le> of_nat 6946802425218990 * pow2 (- 49)" by (simp add: pow2_def)
  show "of_nat 6946802425218990 * pow2 (- 49) = 3473401212609495 / 281474976710656"
    by (simp add: pow2_def)
qed

lemma double_of_1500: "double_of (1500, 100) = Finite 15"
proof (rule double_of_steps)
  show "(1500::nat) \<noteq> 0" by simp
  show "max (binary_exponent 1500 100) (- 1022) - 52 = - 49"
    by (simp add: binary_exponent_def bit_length.simps)
  show "round_half_even (1500 * 2 ^ nat (- (- 49))) (100 * 2 ^ nat (- 49)) = 8444249301319680"
    by (simp add: round_half_even_def)
  show "\<not> pow2 1024 \<le> of_nat 8444249301319680 * pow2 (- 49)" by (simp add: pow2_def)
  show "of_nat 8444249301319680 * pow2 (- 49) = 15"
    by (simp add: pow2_def)
qed

lemma double_of_300: "double_of (300, 100) = Finite 3"
proof (rule double_of_steps)
  show "(300::nat) \<noteq> 0" by simp
  show "max (binary_exponent 300 100) (- 1022) - 52 = - 51"
    by (simp add: binary_exponent_def bit_length.simps)
  show "round_half_even (300 * 2 ^ nat (- (- 51))) (100 * 2 ^ nat (- 51)) = 6755399441055744"
    by (simp add: round_half_even_def)
  show "\<not> pow2 1024 \<le> of_nat 6755399441055744 * pow2 (- 51)" by (simp add: pow2_def)
  show "of_nat 6755399441055744 * pow2 (- 51) = 3"
    by (simp add: pow2_def)
qed

lemma price_amount_at_no_digit:
  "\<forall>c\<in>set s. \<not> is_decimal dv c \<Longrightarrow> price_amount_at dv s = None"
  by (simp add: price_amount_at_def takeWhile_none)

lemma price_first_at_no_digit:
  assumes "\<forall>c\<in>set s. \<not> is_decimal dv c"
  shows "price_first_at dv s = None"
proof (cases s)
  case Nil
  then show ?thesis using price_amount_at_no_digit [of "[]" dv] by (simp add: price_first_at_def)
next
  case (Cons c cs)
  from assms Cons have "\<forall>c\<in>set cs. \<not> is_decimal dv c" by simp
  then have "price_amount_at dv cs = None" by (rule price_amount_at_no_digit)
  moreover have "price_amount_at dv s = None" using assms by (rule price_amount_at_no_digit)
  ultimately show ?thesis using Cons by (auto simp: price_first_at_def)
qed

lemma price_first_no_digit:
  "\<forall>c\<in>set s. \<not> is_decimal dv c \<Longrightarrow> price_first dv s = None"
  by (induction s) (simp_all add: price_first_at_no_digit)

lemma price_second_None:
  "price_second dv s = None \<longleftrightarrow> (\<forall>c\<in>set s. \<not> is_decimal dv c)"
  by (auto simp: price_second_def Let_def dropWhile_eq_Nil_conv)

lemma price_literal_None:
  "price_literal dv (Some s) = None \<longleftrightarrow> (\<forall>c\<in>set s. \<not> is_decimal dv c)"
proof (cases "\<forall>c\<in>set s. \<not> is_decimal dv c")
  case True
  then show ?thesis
    using price_first_no_digit [OF True] price_second_None [of dv s]
    by (simp add: price_literal_def)
next
  case False
  then have "price_second dv s \<noteq> None" by (simp add: price_second_None)
  then obtain e g where "price_second dv s = Some (e, g)" by auto
  moreover from False have "s \<noteq> []" by auto
  ultimately show ?thesis using False
    by (simp add: price_literal_def Let_def split: option.splits)
qed

lemma price_amount_at_chars:
  assumes "price_amount_at dv s = Some g"
  shows "\<forall>c\<in>set g. is_decimal dv c \<or> c = 46"
proof -
  from assms have "\<exists>d1 d2. takeWhile (is_decimal dv) s @ [46, d1, d2] = g
      \<and> is_decimal dv d1 \<and> is_decimal dv d2"
    by (simp add: price_amount_at_def Let_def split: list.splits if_splits) blast
  then obtain d1 d2 where g: "g = takeWhile (is_decimal dv) s @ [46, d1, d2]"
    and d: "is_decimal dv d1" "is_decimal dv d2"
    by blast
  have "\<forall>c\<in>set (takeWhile (is_decimal dv) s). is_decimal dv c" by (auto dest: set_takeWhileD)
  with g d show ?thesis by simp
qed

lemma price_first_at_chars:
  assumes "price_first_at dv s = Some g"
  shows "\<forall>c\<in>set g. is_decimal dv c \<or> c = 46"
proof -
  from assms have "price_amount_at dv s = Some g \<or> price_amount_at dv (tl s) = Some g"
    by (cases s) (simp_all add: price_first_at_def split: if_splits option.splits)
  then show ?thesis using price_amount_at_chars by blast
qed

lemma price_first_chars:
  "price_first dv s = Some g \<Longrightarrow> \<forall>c\<in>set g. is_decimal dv c \<or> c = 46"
proof (induction s)
  case Nil
  then show ?case using price_first_at_chars [of dv "[]" g] by simp
next
  case (Cons c cs)
  show ?case
  proof (cases "price_first_at dv (c # cs)")
    case None
    with Cons show ?thesis by simp
  next
    case (Some g1)
    with Cons(2) have "g1 = g" by simp
    with Some show ?thesis using price_first_at_chars by blast
  qed
qed

lemma price_second_chars:
  assumes "price_second dv s = Some (e, g)"
  shows "(\<forall>c\<in>set e. is_decimal dv c)
    \<and> (\<forall>c2. g = Some c2 \<longrightarrow> (\<forall>c\<in>set c2. is_decimal dv c))"
proof -
  let ?s1 = "dropWhile (\<lambda>c. \<not> is_decimal dv c) s"
  from assms have e: "e = takeWhile (is_decimal dv) ?s1"
    by (simp add: price_second_def Let_def split: if_splits)
  have 1: "\<forall>c\<in>set e. is_decimal dv c" unfolding e by (auto dest: set_takeWhileD)
  have 2: "\<forall>c\<in>set c2. is_decimal dv c" if "g = Some c2" for c2
  proof -
    from assms that have "\<exists>d1 d2. [d1, d2] = c2 \<and> is_decimal dv d1 \<and> is_decimal dv d2"
      by (simp add: price_second_def Let_def split: if_splits list.splits) blast+
    then obtain d1 d2 where "c2 = [d1, d2]" "is_decimal dv d1" "is_decimal dv d2"
      by blast
    then show ?thesis by simp
  qed
  from 1 2 show ?thesis by blast
qed

lemma decimal_table_zero: "decimal_table dv \<Longrightarrow> dv 48 = Some 0"
  by (simp add: decimal_table_def is_digit_def)

lemma decimal_table_ascii:
  "decimal_table dv \<Longrightarrow> 48 \<le> c \<Longrightarrow> c \<le> 57 \<Longrightarrow> dv c = Some (c - 48)"
  by (simp add: decimal_table_def is_digit_def)

lemma decimal_table_other:
  "decimal_table dv \<Longrightarrow> c < 128 \<Longrightarrow> \<not> is_digit c \<Longrightarrow> dv c = None"
  by (simp add: decimal_table_def)

lemma decimal_table_dot: "decimal_table dv \<Longrightarrow> \<not> is_decimal dv 46"
  by (simp add: decimal_table_other is_decimal_def is_digit_def)

lemma decimal_table_euro: "decimal_table dv \<Longrightarrow> \<not> is_decimal dv 8364"
  by (simp add: decimal_table_def is_decimal_def)

lemma price_literal_chars:
  assumes tab: "decimal_table dv" and "price_literal dv t = Some g"
  shows "\<forall>c\<in>set g. is_decimal dv c \<or> c = 46"
proof (cases t)
  case None with assms show ?thesis by (simp add: price_literal_def)
next
  case (Some s)
  have z: "is_decimal dv 48" using decimal_table_zero [OF tab] by (simp add: is_decimal_def)
  show ?thesis
  proof (cases "price_first dv s")
    case (Some g1)
    with assms \<open>t = Some s\<close> have "g = g1" by (simp add: price_literal_def split: if_splits)
    with Some price_first_chars show ?thesis by blast
  next
    case None
    with assms \<open>t = Some s\<close> obtain e g2 where ps: "price_second dv s = Some (e, g2)"
      by (auto simp: price_literal_def split: if_splits option.splits)
    from price_second_chars [OF ps] assms(2) \<open>t = Some s\<close> None ps z show ?thesis
      by (auto simp: price_literal_def Let_def str_def split: if_splits option.splits)
  qed
qed

lemma takeWhile_run:
  "\<forall>c\<in>set ds. P c \<Longrightarrow> (r = [] \<or> \<not> P (hd r)) \<Longrightarrow> takeWhile P (ds @ r) = ds"
  by (cases r) (simp_all add: takeWhile_append2)

lemma dropWhile_run:
  "\<forall>c\<in>set ds. P c \<Longrightarrow> (r = [] \<or> \<not> P (hd r)) \<Longrightarrow> dropWhile P (ds @ r) = r"
  by (cases r) (simp_all add: dropWhile_append2)

text \<open>The amount at the head of a text that begins with digits, a dot and two digits.\<close>

lemma price_amount_at_amount:
  assumes tab: "decimal_table dv" and ds: "ds \<noteq> []" "\<forall>c\<in>set ds. is_decimal dv c"
    and d: "is_decimal dv d1" "is_decimal dv d2"
  shows "price_amount_at dv (ds @ 46 # d1 # d2 # post) = Some (ds @ [46, d1, d2])"
proof -
  have dot: "\<not> is_decimal dv 46" using tab by (rule decimal_table_dot)
  have t: "takeWhile (is_decimal dv) (ds @ 46 # d1 # d2 # post) = ds"
    using ds(2) dot by (intro takeWhile_run) simp_all
  have r: "dropWhile (is_decimal dv) (ds @ 46 # d1 # d2 # post) = 46 # d1 # d2 # post"
    using ds(2) dot by (intro dropWhile_run) simp_all
  show ?thesis unfolding price_amount_at_def t r using ds(1) d by simp
qed

lemma price_first_amount:
  assumes tab: "decimal_table dv" and pre: "\<forall>c\<in>set pre. \<not> is_decimal dv c"
    and ds: "ds \<noteq> []" "\<forall>c\<in>set ds. is_decimal dv c"
    and d: "is_decimal dv d1" "is_decimal dv d2"
  shows "price_first dv (pre @ ds @ 46 # d1 # d2 # post) = Some (ds @ [46, d1, d2])"
  using pre
proof (induction pre)
  case Nil
  from ds(1) obtain x xs where x: "ds = x # xs" by (cases ds) auto
  with ds(2) have "is_decimal dv x" by simp
  with decimal_table_euro [OF tab] have "x \<noteq> 8364" by auto
  then have "price_first_at dv (ds @ 46 # d1 # d2 # post) = Some (ds @ [46, d1, d2])"
    using price_amount_at_amount [OF tab ds d, of post] x by (simp add: price_first_at_def)
  then show ?case using x by simp
next
  case (Cons c pre)
  let ?rest = "pre @ ds @ 46 # d1 # d2 # post"
  from Cons.prems have c: "\<not> is_decimal dv c" and pre': "\<forall>c\<in>set pre. \<not> is_decimal dv c"
    by simp_all
  have ih: "price_first dv ?rest = Some (ds @ [46, d1, d2])" using Cons.IH [OF pre'] .
  have here: "price_amount_at dv (c # ?rest) = None"
    using c by (simp add: price_amount_at_def)
  have next_one: "price_amount_at dv ?rest = None \<or> price_amount_at dv ?rest = Some (ds @ [46, d1, d2])"
  proof (cases pre)
    case Nil
    then show ?thesis using price_amount_at_amount [OF tab ds d, of post] by simp
  next
    case (Cons c' pre'')
    with pre' have "\<not> is_decimal dv c'" by simp
    with Cons show ?thesis by (simp add: price_amount_at_def)
  qed
  then have "price_first_at dv (c # ?rest) = None
      \<or> price_first_at dv (c # ?rest) = Some (ds @ [46, d1, d2])"
    using here by (auto simp: price_first_at_def)
  then show ?case using ih by auto
qed

lemma price_amount_at_bare:
  assumes ds: "\<forall>c\<in>set ds. is_decimal dv c" and post: "\<forall>c\<in>set post. \<not> is_decimal dv c"
  shows "price_amount_at dv (ds @ post) = None"
proof -
  have p: "post = [] \<or> \<not> is_decimal dv (hd post)" using post by (cases post) auto
  have r: "dropWhile (is_decimal dv) (ds @ post) = post"
    using ds p by (rule dropWhile_run)
  show ?thesis unfolding price_amount_at_def r using post
    by (auto simp: Let_def split: list.splits)
qed

lemma price_first_run:
  assumes tab: "decimal_table dv" and post: "\<forall>c\<in>set post. \<not> is_decimal dv c"
  shows "\<forall>c\<in>set ds. is_decimal dv c \<Longrightarrow> price_first dv (ds @ post) = None"
proof (induction ds)
  case Nil
  then show ?case using price_first_no_digit [OF post] by simp
next
  case (Cons x ds)
  from Cons.prems have x: "is_decimal dv x" and ds: "\<forall>c\<in>set ds. is_decimal dv c" by simp_all
  from x decimal_table_euro [OF tab] have "x \<noteq> 8364" by auto
  moreover have "price_amount_at dv ((x # ds) @ post) = None"
    using Cons.prems post by (rule price_amount_at_bare)
  ultimately have "price_first_at dv (x # ds @ post) = None" by (simp add: price_first_at_def)
  then show ?case using Cons.IH [OF ds] by simp
qed

lemma price_first_bare:
  assumes tab: "decimal_table dv" and ds: "\<forall>c\<in>set ds. is_decimal dv c"
    and post: "\<forall>c\<in>set post. \<not> is_decimal dv c"
  shows "\<forall>c\<in>set pre. \<not> is_decimal dv c \<Longrightarrow> price_first dv (pre @ ds @ post) = None"
proof (induction pre)
  case Nil
  then show ?case using price_first_run [OF tab post ds] by simp
next
  case (Cons c pre)
  from Cons.prems have c: "\<not> is_decimal dv c" and pre: "\<forall>c\<in>set pre. \<not> is_decimal dv c"
    by simp_all
  have here: "price_amount_at dv (c # pre @ ds @ post) = None"
    using c by (simp add: price_amount_at_def)
  have next_one: "price_amount_at dv (pre @ ds @ post) = None"
  proof (cases pre)
    case Nil
    then show ?thesis using price_amount_at_bare [OF ds post] by simp
  next
    case (Cons c' pre')
    with pre have "\<not> is_decimal dv c'" by simp
    with Cons show ?thesis by (simp add: price_amount_at_def)
  qed
  from here next_one have "price_first_at dv (c # pre @ ds @ post) = None"
    by (auto simp: price_first_at_def)
  then show ?case using Cons.IH [OF pre] by simp
qed

lemma price_second_bare:
  assumes pre: "\<forall>c\<in>set pre. \<not> is_decimal dv c"
    and ds: "ds \<noteq> []" "\<forall>c\<in>set ds. is_decimal dv c"
    and post: "\<forall>c\<in>set post. \<not> is_decimal dv c"
  shows "price_second dv (pre @ ds @ post) = Some (ds, None)"
proof -
  from ds obtain x xs where x: "ds = x # xs" "is_decimal dv x" by (cases ds) auto
  have s1: "dropWhile (\<lambda>c. \<not> is_decimal dv c) (pre @ ds @ post) = ds @ post"
    using pre x by (intro dropWhile_run) simp_all
  have p: "post = [] \<or> \<not> is_decimal dv (hd post)" using post by (cases post) auto
  have e: "takeWhile (is_decimal dv) (ds @ post) = ds" using ds(2) p by (rule takeWhile_run)
  have r: "dropWhile (is_decimal dv) (ds @ post) = post" using ds(2) p by (rule dropWhile_run)
  have c: "(case (case post of p # t \<Rightarrow> if p = 46 then t else post | [] \<Rightarrow> post) of
              d1 # d2 # _ \<Rightarrow> if is_decimal dv d1 \<and> is_decimal dv d2 then Some [d1, d2] else None
            | _ \<Rightarrow> None) = None"
    using post by (auto split: list.splits)
  show ?thesis unfolding price_second_def s1 Let_def e r c using x(1) by simp
qed

lemma price_literal_bare:
  assumes tab: "decimal_table dv" and pre: "\<forall>c\<in>set pre. \<not> is_decimal dv c"
    and ds: "ds \<noteq> []" "\<forall>c\<in>set ds. is_decimal dv c"
    and post: "\<forall>c\<in>set post. \<not> is_decimal dv c"
  shows "price_literal dv (Some (pre @ ds @ post)) = Some (ds @ str ''.00'')"
  using price_first_bare [OF tab ds(2) post pre] price_second_bare [OF pre ds post] ds(1)
  by (simp add: price_literal_def str_def)

lemma price_literal_amount:
  assumes tab: "decimal_table dv" and pre: "\<forall>c\<in>set pre. \<not> is_decimal dv c"
    and ds: "ds \<noteq> []" "\<forall>c\<in>set ds. is_decimal dv c"
    and d: "is_decimal dv d1" "is_decimal dv d2"
  shows "price_literal dv (Some (pre @ ds @ 46 # d1 # d2 # post)) = Some (ds @ [46, d1, d2])"
  using price_first_amount [OF tab pre ds d, of post] ds(1)
  by (simp add: price_literal_def)

lemma decimal_number_amount:
  assumes tab: "decimal_table dv" and ds: "\<forall>c\<in>set ds. is_decimal dv c"
  shows "decimal_number dv (ds @ 46 # fs)
    = (digits_value dv ds * 10 ^ length fs + digits_value dv fs, 10 ^ length fs)"
proof -
  have n: "\<forall>c\<in>set ds. c \<noteq> 46" using ds decimal_table_dot [OF tab] by auto
  have t: "takeWhile (\<lambda>c. c \<noteq> 46) (ds @ 46 # fs) = ds"
    using n by (intro takeWhile_run) simp_all
  have r: "dropWhile (\<lambda>c. c \<noteq> 46) (ds @ 46 # fs) = 46 # fs"
    using n by (intro dropWhile_run) simp_all
  show ?thesis unfolding decimal_number_def t r by (simp add: Let_def)
qed

lemma digits_value_zeros: "decimal_table dv \<Longrightarrow> digits_value dv (str ''00'') = 0"
  by (simp add: digits_value_def str_def decimal_table_zero)

lemma unicode_decimal_table: "decimal_table unicode_decimal"
proof -
  have 1: "unicode_decimal c = Some (c - 48)" if "is_digit c" for c
    using that by (simp add: unicode_decimal_def decimal_zeros_def is_digit_def)
  have 2: "unicode_decimal c = None" if "c < 128" "\<not> is_digit c" for c
    using that by (auto simp: unicode_decimal_def decimal_zeros_def is_digit_def)
  have 3: "unicode_decimal 8364 = None"
    by (simp add: unicode_decimal_def decimal_zeros_def)
  from 1 2 3 show ?thesis unfolding decimal_table_def by blast
qed

lemmas price_defs = extract_price_def price_literal_def price_first_at_def price_amount_at_def
  price_second_def decimal_number_def digits_value_def is_decimal_def str_def

lemma ascii_decimal:
  assumes "decimal_table dv"
  shows "c < 128 \<Longrightarrow> dv c = (if is_digit c then Some (c - 48) else None)"
  using assms by (simp add: decimal_table_def)

text \<open>
  C7. With the decimal digits of any version of the Unicode database, the price parser
  yields 12.34 for \<open>\<euro>12.34\<close> and for \<open>12.34\<close>, and 15.00 for \<open>15\<close>, where the
  absent cents group is replaced by \<open>00\<close>; 12.34 and 15.00 are the doubles that
  \<open>float\<close> makes of these numerals. The first pattern is tried first: \<open>2 for 12.34\<close>
  yields 12.34, not 2.00. In general, a text whose first digits are a run \<open>ds\<close>
  followed by a dot and two digits yields the number \<open>ds.d1d2\<close>, and a text whose only
  digits are a run \<open>ds\<close> yields \<open>ds.00\<close>. The parser yields nothing exactly for the
  texts without a decimal digit (and for an absent or empty text). What is handed to
  \<open>float\<close> consists of digits and the decimal point only: the currency symbol is not
  part of it.
\<close>

theorem extract_price_cases:
  assumes "decimal_table dv"
  shows "extract_price dv (Some (8364 # str ''12.34'')) = Some (double_of (1234, 100))
   \<and> extract_price dv (Some (str ''12.34'')) = Some (double_of (1234, 100))
   \<and> extract_price dv (Some (str ''15'')) = Some (double_of (1500, 100))
   \<and> price_literal dv (Some (str ''15'')) = Some (str ''15.00'')
   \<and> extract_price dv (Some (str ''2 for 12.34'')) = Some (double_of (1234, 100))
   \<and> double_of (1234, 100) = Finite (3473401212609495 / 281474976710656)
   \<and> double_of (1500, 100) = Finite 15
   \<and> extract_price dv None = None
   \<and> extract_price dv (Some []) = None
   \<and> (extract_price dv (Some s) = None \<longleftrightarrow> (\<forall>c\<in>set s. \<not> is_decimal dv c))
   \<and> ((\<forall>c\<in>set pre. \<not> is_decimal dv c) \<and> ds \<noteq> [] \<and> (\<forall>c\<in>set ds. is_decimal dv c)
        \<and> is_decimal dv d1 \<and> is_decimal dv d2 \<longrightarrow>
       price_literal dv (Some (pre @ ds @ 46 # d1 # d2 # post)) = Some (ds @ [46, d1, d2])
       \<and> extract_price dv (Some (pre @ ds @ 46 # d1 # d2 # post))
           = Some (double_of (digits_value dv ds * 100 + digits_value dv [d1, d2], 100)))
   \<and> ((\<forall>c\<in>set pre'. \<not> is_decimal dv c) \<and> ds' \<noteq> [] \<and> (\<forall>c\<in>set ds'. is_decimal dv c)
        \<and> (\<forall>c\<in>set post'. \<not> is_decimal dv c) \<longrightarrow>
       price_literal dv (Some (pre' @ ds' @ post')) = Some (ds' @ str ''.00'')
       \<and> extract_price dv (Some (pre' @ ds' @ post'))
           = Some (double_of (digits_value dv ds' * 100, 100)))
   \<and> (\<forall>g. price_literal dv t = Some g \<longrightarrow> (\<forall>c\<in>set g. is_decimal dv c \<or> c = 46))"
proof -
  note tab = assms
  note asc = ascii_decimal [OF tab]
  have eu: "dv 8364 = None" using tab by (simp add: decimal_table_def)
  have 1: "extract_price dv (Some (8364 # str ''12.34'')) = Some (double_of (1234, 100))"
    by (simp add: price_defs asc is_digit_def eu)
  have 2: "extract_price dv (Some (str ''12.34'')) = Some (double_of (1234, 100))"
    by (simp add: price_defs asc is_digit_def)
  have 3: "price_literal dv (Some (str ''15'')) = Some (str ''15.00'')"
    by (simp add: price_defs asc is_digit_def)
  have 4: "extract_price dv (Some (str ''15'')) = Some (double_of (1500, 100))"
    by (simp add: price_defs asc is_digit_def)
  have 5: "extract_price dv (Some (str ''2 for 12.34'')) = Some (double_of (1234, 100))"
    by (simp add: price_defs asc is_digit_def)
  have 6: "extract_price dv None = None" "extract_price dv (Some []) = None"
    by (simp_all add: extract_price_def price_literal_def)
  have 7: "extract_price dv (Some s) = None \<longleftrightarrow> (\<forall>c\<in>set s. \<not> is_decimal dv c)"
    by (simp add: extract_price_def price_literal_None)
  have 8: "price_literal dv (Some (pre @ ds @ 46 # d1 # d2 # post)) = Some (ds @ [46, d1, d2])
       \<and> extract_price dv (Some (pre @ ds @ 46 # d1 # d2 # post))
           = Some (double_of (digits_value dv ds * 100 + digits_value dv [d1, d2], 100))"
    if h: "(\<forall>c\<in>set pre. \<not> is_decimal dv c) \<and> ds \<noteq> [] \<and> (\<forall>c\<in>set ds. is_decimal dv c)
        \<and> is_decimal dv d1 \<and> is_decimal dv d2"
  proof -
    from h have lit: "price_literal dv (Some (pre @ ds @ 46 # d1 # d2 # post)) = Some (ds @ [46, d1, d2])"
      by (intro price_literal_amount [OF tab]) simp_all
    from h have "decimal_number dv (ds @ 46 # [d1, d2])
        = (digits_value dv ds * 10 ^ length [d1, d2] + digits_value dv [d1, d2], 10 ^ length [d1, d2])"
      by (intro decimal_number_amount [OF tab]) simp
    then have "decimal_number dv (ds @ [46, d1, d2])
        = (digits_value dv ds * 100 + digits_value dv [d1, d2], 100)" by simp
    with lit show ?thesis by (simp add: extract_price_def)
  qed
  have 9: "price_literal dv (Some (pre' @ ds' @ post')) = Some (ds' @ str ''.00'')
       \<and> extract_price dv (Some (pre' @ ds' @ post'))
           = Some (double_of (digits_value dv ds' * 100, 100))"
    if h: "(\<forall>c\<in>set pre'. \<not> is_decimal dv c) \<and> ds' \<noteq> [] \<and> (\<forall>c\<in>set ds'. is_decimal dv c)
        \<and> (\<forall>c\<in>set post'. \<not> is_decimal dv c)"
  proof -
    from h have lit: "price_literal dv (Some (pre' @ ds' @ post')) = Some (ds' @ str ''.00'')"
      by (intro price_literal_bare [OF tab]) simp_all
    have "str ''.00'' = 46 # str ''00''" by (simp add: str_def)
    moreover from h have "decimal_number dv (ds' @ 46 # str ''00'')
        = (digits_value dv ds' * 10 ^ length (str ''00'') + digits_value dv (str ''00''),
           10 ^ length (str ''00''))"
      by (intro decimal_number_amount [OF tab]) simp
    ultimately have "decimal_number dv (ds' @ str ''.00'') = (digits_value dv ds' * 100, 100)"
      using digits_value_zeros [OF tab] by (simp add: str_def)
    with lit show ?thesis by (simp add: extract_price_def)
  qed
  have 10: "\<forall>g. price_literal dv t = Some g \<longrightarrow> (\<forall>c\<in>set g. is_decimal dv c \<or> c = 46)"
    using price_literal_chars [OF tab] by blast
  from 1 2 3 4 5 double_of_1234 double_of_1500 6 7 8 9 10 show ?thesis by blast
qed

theorem extract_price_cases_witness:
  "decimal_table unicode_decimal
   \<and> list_all (\<lambda>c. \<not> is_decimal unicode_decimal c) (str ''n/a'')
   \<and> extract_price unicode_decimal (Some (str ''n/a'')) = None
   \<and> list_all (\<lambda>c. \<not> is_decimal unicode_decimal c) (8364 # str ''EUR '')
   \<and> list_all (is_decimal unicode_decimal) [1633, 1634, 1635, 52]
   \<and> price_literal unicode_decimal
         (Some ((8364 # str ''EUR '') @ [1633, 1634] @ 46 # 1635 # 52 # str '' each''))
       = Some [1633, 1634, 46, 1635, 52]
   \<and> extract_price unicode_decimal
         (Some ((8364 # str ''EUR '') @ [1633, 1634] @ 46 # 1635 # 52 # str '' each''))
       = Some (Finite (3473401212609495 / 281474976710656))
   \<and> list_all (\<lambda>c. \<not> is_decimal unicode_decimal c) (str ''.-'')
   \<and> price_literal unicode_decimal (Some (str ''EUR '' @ [1635] @ str ''.-''))
       = Some (1635 # str ''.00'')
   \<and> extract_price unicode_decimal (Some (str ''EUR '' @ [1635] @ str ''.-'')) = Some (Finite 3)
   \<and> price_literal unicode_decimal (Some (8364 # str ''9.99 each'')) = Some (str ''9.99'')
   \<and> list_all (\<lambda>c. is_decimal unicode_decimal c \<or> c = 46) (str ''9.99'')"
  using extract_price_cases [OF unicode_decimal_table,
      where s = "str ''n/a''" and pre = "8364 # str ''EUR ''" and ds = "[1633, 1634]"
        and ?d1.0 = 1635 and ?d2.0 = 52 and post = "str '' each''"
        and pre' = "str ''EUR ''" and ds' = "[1635]" and post' = "str ''.-''"
        and t = "Some (8364 # str ''9.99 each'')"]
    unicode_decimal_table
  by (simp add: price_literal_def price_first_at_def price_amount_at_def is_decimal_def str_def
      digits_value_def unicode_decimal_def decimal_zeros_def double_of_1234 double_of_300)


section \<open>Properties of the item loop\<close>

lemma scrape_book_frame:
  assumes "scrape_book e url st = (r, st')"
  shows "scraped_count st' = scraped_count st" "skipped_count st' = skipped_count st"
    "page_num st' = page_num st"
    "trace st' = trace st @ [Scrape url] \<or> trace st' = trace st @ [Scrape url, Navigate url]"
    "fst (new_page e (world st)) = Ret True \<Longrightarrow> trace st' = trace st @ [Scrape url, Navigate url]"
  using assms
  by (auto simp: scrape_book_def close_page_then_def call_def log_event_def
      split: prod.splits res.splits option.splits bool.splits if_splits)

lemma with_category_title: "title (with_category bd) = title bd"
  by (simp add: with_category_def book_data.defs)

lemma process_book_frame:
  "skipped_count (process_book e url st) = skipped_count st"
  "page_num (process_book e url st) = page_num st"
  "scraped_count (process_book e url st) = scraped_count st
     \<or> scraped_count (process_book e url st) = scraped_count st + 1"
proof -
  obtain r st1 where sb: "scrape_book e url st = (r, st1)" by (cases "scrape_book e url st")
  note f = scrape_book_frame(1-3) [OF sb]
  show "skipped_count (process_book e url st) = skipped_count st"
    using f sb by (auto simp: process_book_def Let_def call_def log_event_def
        split: prod.splits res.splits option.splits)
  show "page_num (process_book e url st) = page_num st"
    using f sb by (auto simp: process_book_def Let_def call_def log_event_def
        split: prod.splits res.splits option.splits)
  show "scraped_count (process_book e url st) = scraped_count st
     \<or> scraped_count (process_book e url st) = scraped_count st + 1"
    using f sb by (auto simp: process_book_def Let_def call_def log_event_def
        split: prod.splits res.splits option.splits)
qed

lemma process_book_trace:
  "\<exists>evs. trace (process_book e url st) = trace st @ Scrape url # evs
     \<and> (\<forall>k. Lookup k \<notin> set evs)
     \<and> (\<forall>row. AddBook row \<in> set evs \<longrightarrow> title row \<noteq> [])
     \<and> (fst (new_page e (world st)) = Ret True \<longrightarrow> Navigate url \<in> set evs)"
proof -
  obtain r st1 where sb: "scrape_book e url st = (r, st1)" by (cases "scrape_book e url st")
  from scrape_book_frame(4,5) [OF sb]
  have t: "trace st1 = trace st @ [Scrape url] \<or> trace st1 = trace st @ [Scrape url, Navigate url]"
    and n: "fst (new_page e (world st)) = Ret True \<Longrightarrow> trace st1 = trace st @ [Scrape url, Navigate url]"
    by blast+
  have "trace (process_book e url st) = trace st1
      \<or> (\<exists>bd. title bd \<noteq> [] \<and> trace (process_book e url st) = trace st1 @ [AddBook (with_category bd)])"
    using sb by (auto simp: process_book_def Let_def call_def log_event_def
        split: prod.splits res.splits option.splits)
  then show ?thesis using t n by (auto simp: with_category_title)
qed

text \<open>
  C4. When the identifier taken from the item URL is one the database already knows,
  the pass of the item loop consists of the lookup alone: the item extractor is not
  entered and no item page is navigated to (the only call recorded is the lookup), the
  skip counter grows by one, the accepted counter stays, and the loop goes on with the
  next link.
\<close>

theorem known_identifier_skipped_without_visit:
  assumes "extract_sku_from_url url = Some k"
    and "get_book_by_sku e k (world st) = (Ret (Some b), w')"
  shows "\<exists>st'. item_step e url st = Next st'
           \<and> skipped_count st' = skipped_count st + 1
           \<and> scraped_count st' = scraped_count st
           \<and> trace st' = trace st @ [Lookup k]
           \<and> (\<forall>max_books rest. scraped_count st < max_books \<longrightarrow>
                 item_loop e max_books (url # rest) st = item_loop e max_books rest st')"
proof -
  from assms(1) have k: "k \<noteq> []"
    by (auto simp: extract_sku_from_url_def Let_def split: if_splits)
  let ?st' = "st\<lparr>trace := trace st @ [Lookup k], world := w',
                 skipped_count := skipped_count st + 1\<rparr>"
  have "item_step e url st = Next ?st'"
    using assms k
    by (simp add: item_step_def is_book_in_database_def call_def log_event_def)
  then show ?thesis by (intro exI [of _ ?st']) simp
qed


lemma sku_two: "extract_sku_from_url (str ''https://shop/p/book-two'') = Some (str ''book-two'')"
  by (simp add: extract_sku_from_url_def strip_by_def py_split_def str_def)

lemma lookup_two:
  "get_book_by_sku demo_env (str ''book-two'') (world (initial demo_store))
     = (Ret (Some (stored (str ''book-two''))), demo_store)"
  by (simp add: demo_env_def shop_env_def initial_def demo_store_def store_find_def stored_def)

theorem known_identifier_skipped_without_visit_witness:
  "extract_sku_from_url (str ''https://shop/p/book-two'') = Some (str ''book-two'')
   \<and> get_book_by_sku demo_env (str ''book-two'') (world (initial demo_store))
       = (Ret (Some (stored (str ''book-two''))), demo_store)
   \<and> (\<exists>st'. item_step demo_env (str ''https://shop/p/book-two'') (initial demo_store) = Next st'
          \<and> skipped_count st' = 1 \<and> scraped_count st' = 0
          \<and> trace st' = [Lookup (str ''book-two'')])"
proof -
  from known_identifier_skipped_without_visit [OF sku_two lookup_two]
  obtain st' where "item_step demo_env (str ''https://shop/p/book-two'') (initial demo_store) = Next st'"
    "skipped_count st' = skipped_count (initial demo_store) + 1"
    "scraped_count st' = scraped_count (initial demo_store)"
    "trace st' = trace (initial demo_store) @ [Lookup (str ''book-two'')]"
    by blast
  then have "\<exists>st'. item_step demo_env (str ''https://shop/p/book-two'') (initial demo_store) = Next st'
          \<and> skipped_count st' = 1 \<and> scraped_count st' = 0
          \<and> trace st' = [Lookup (str ''book-two'')]"
    by (simp add: initial_def)
  with sku_two lookup_two show ?thesis by blast
qed

lemmas run_defs =
  process_book_def scrape_book_def call_def log_event_def close_page_then_def
  shop_env_def ok_response_def not_found_def page_with_def listing_of_def
  book_fields_def get_text_def extract_sku_def extract_sku_from_url_def strip_by_def
  py_split_def str_def sku_script_def jsonld_sku_def extract_price_def price_literal_def
  extract_isbn_def isbn_script_def jsonld_isbn_def py_strip_def py_isspace_def js_trim_def
  js_isspace_def store_insert_def store_find_def stored_def with_category_def
  book_data.defs initial_def id_truthy_def item_step_def is_book_in_database_def
  price_first_at_def price_amount_at_def price_second_def is_digit_def decimal_number_def
  is_decimal_def fallback_sku_def fmt_07d_def

lemma short_segment_None:
  assumes "length (last (py_split 47 (strip_by (\<lambda>c. c = 47) url))) \<le> 5"
  shows "extract_sku_from_url url = None"
  using assms by (simp add: extract_sku_from_url_def Let_def)

text \<open>
  C10. The check before the visit uses the identifier from the URL alone. For an item
  URL whose last path segment has five characters or fewer there is no such identifier:
  the pass makes no lookup at all and enters the item extractor, which navigates to the
  page as soon as a page can be opened, whatever the database holds.
\<close>

theorem short_segment_not_checked:
  assumes "length (last (py_split 47 (strip_by (\<lambda>c. c = 47) url))) \<le> 5"
  shows "extract_sku_from_url url = None
     \<and> item_step e url st = Next (process_book e url st)
     \<and> (\<exists>evs. trace (process_book e url st) = trace st @ Scrape url # evs
           \<and> (\<forall>k. Lookup k \<notin> set evs)
           \<and> (fst (new_page e (world st)) = Ret True \<longrightarrow> Navigate url \<in> set evs))"
proof -
  have n: "extract_sku_from_url url = None" using assms by (rule short_segment_None)
  then have "item_step e url st = Next (process_book e url st)"
    by (simp add: item_step_def)
  moreover from process_book_trace [of e url st]
  have "\<exists>evs. trace (process_book e url st) = trace st @ Scrape url # evs
           \<and> (\<forall>k. Lookup k \<notin> set evs)
           \<and> (fst (new_page e (world st)) = Ret True \<longrightarrow> Navigate url \<in> set evs)"
    by blast
  ultimately show ?thesis using n by blast
qed

lemma short_url_segment:
  "length (last (py_split 47 (strip_by (\<lambda>c. c = 47) (str ''https://shop/p/ab'')))) \<le> 5"
  by (simp add: strip_by_def py_split_def str_def)

lemma short_process:
  "trace (process_book short_env (str ''https://shop/p/ab'') (initial short_store))
     = [Scrape (str ''https://shop/p/ab''), Navigate (str ''https://shop/p/ab''),
        AddBook (with_category
          \<lparr>title = str ''Dup'', author = str ''Unknown'', isbn = None,
           sku = JStr (str ''SKU-77''), wob_price = None, wob_url = str ''https://shop/p/ab'',
           condition = None, binding = None, publisher = None, publication_year = None,
           description = None, image_url = None\<rparr>)]
   \<and> scraped_count (process_book short_env (str ''https://shop/p/ab'') (initial short_store)) = 0
   \<and> skipped_count (process_book short_env (str ''https://shop/p/ab'') (initial short_store)) = 0
   \<and> world (process_book short_env (str ''https://shop/p/ab'') (initial short_store)) = short_store"
  by (simp add: run_defs short_env_def short_site_def short_store_def)

theorem short_segment_not_checked_witness:
  "length (last (py_split 47 (strip_by (\<lambda>c. c = 47) (str ''https://shop/p/ab'')))) \<le> 5
   \<and> extract_sku_from_url (str ''https://shop/p/ab'') = None
   \<and> item_step short_env (str ''https://shop/p/ab'') (initial short_store)
       = Next (process_book short_env (str ''https://shop/p/ab'') (initial short_store))
   \<and> take 2 (trace (process_book short_env (str ''https://shop/p/ab'') (initial short_store)))
       = [Scrape (str ''https://shop/p/ab''), Navigate (str ''https://shop/p/ab'')]
   \<and> store_find (JStr (str ''SKU-77'')) short_store = Some (stored (str ''SKU-77''))"
  using short_segment_not_checked [OF short_url_segment, of short_env "initial short_store"]
    short_url_segment short_process
  by (simp add: short_store_def store_find_def stored_def)









lemma short_scrape:
  "scrape_book short_env (str ''https://shop/p/ab'') (initial short_store)
     = (Ret (Some dup_book),
        (initial short_store)\<lparr>trace := [Scrape (str ''https://shop/p/ab''),
                                        Navigate (str ''https://shop/p/ab'')]\<rparr>)"
  by (simp add: short_env_def short_site_def short_store_def run_defs dup_book_def)





section \<open>Properties of the run\<close>

lemma book_fields_title:
  assumes "book_fields h page url = Ret (Some bd)"
  shows "get_text page (str ''h1.product__title'') = Some (title bd) \<and> title bd \<noteq> []"
  using assms
  by (auto simp: book_fields_def Let_def split: if_splits option.splits)

lemma book_fields_no_title:
  assumes "get_text page (str ''h1.product__title'') = None
           \<or> get_text page (str ''h1.product__title'') = Some []"
  shows "book_fields h page url = Raise \<or> book_fields h page url = Ret None"
  using assms by (auto simp: book_fields_def Let_def)

lemma scrape_book_result:
  assumes "scrape_book e url st = (Ret (Some bd), st')"
  shows "\<exists>w resp. fst (navigate e url w) = Ret (Some resp)
            \<and> ok resp \<and> book_fields (run_hash e) (loaded resp) url = Ret (Some bd)"
proof -
  from assms obtain w w' resp where "navigate e url w = (Ret (Some resp), w')" "ok resp"
    "book_fields (run_hash e) (loaded resp) url = Ret (Some bd)"
    by (auto simp: scrape_book_def close_page_then_def call_def log_event_def
      split: prod.splits res.splits option.splits bool.splits if_splits)
  then show ?thesis by (metis fst_conv)
qed

lemma scrape_book_title:
  assumes "scrape_book e url st = (Ret (Some bd), st')"
  shows "title bd \<noteq> []"
  using scrape_book_result [OF assms] book_fields_title by blast

lemma process_book_adds:
  "\<exists>evs. trace (process_book e url s) = trace s @ evs
     \<and> (\<forall>row. AddBook row \<in> set evs \<longrightarrow> title row \<noteq> [])"
proof -
  from process_book_trace [of e url s]
  obtain evs where t: "trace (process_book e url s) = trace s @ Scrape url # evs"
    and a: "\<forall>row. AddBook row \<in> set evs \<longrightarrow> title row \<noteq> []"
    by blast
  have "\<forall>row. AddBook row \<in> set (Scrape url # evs) \<longrightarrow> title row \<noteq> []"
    using a by simp
  with t show ?thesis by blast
qed

lemma is_book_in_database_frame:
  assumes "is_book_in_database e k st = (r, s1)"
  shows "page_num s1 = page_num st" "skipped_count s1 = skipped_count st"
    "scraped_count s1 = scraped_count st"
    "trace s1 = trace st \<or> trace s1 = trace st @ [Lookup k]"
  using assms
  by (auto simp: is_book_in_database_def call_def log_event_def
      split: if_splits prod.splits res.splits)

lemma item_step_cases:
  assumes "item_step e url st = Next st' \<or> item_step e url st = Abort st'"
  shows "st' = process_book e url st
    \<or> (\<exists>k st1. is_book_in_database e k st = (Ret True, st1)
           \<and> st' = st1\<lparr>skipped_count := skipped_count st1 + 1\<rparr>)
    \<or> (\<exists>k. is_book_in_database e k st = (Raise, st'))
    \<or> (\<exists>k st1. is_book_in_database e k st = (Ret False, st1) \<and> st' = process_book e url st1)"
proof (cases "extract_sku_from_url url")
  case None
  with assms show ?thesis by (simp add: item_step_def)
next
  case (Some k)
  show ?thesis
  proof (cases "k = []")
    case True
    with Some assms show ?thesis by (simp add: item_step_def)
  next
    case False
    obtain r st1 where d: "is_book_in_database e k st = (r, st1)"
      by (cases "is_book_in_database e k st")
    show ?thesis
    proof (cases r)
      case Raise
      with d Some False assms have "st' = st1" by (simp add: item_step_def)
      with d Raise show ?thesis by auto
    next
      case (Ret b)
      show ?thesis
      proof (cases b)
        case True
        with d Ret Some False assms
        have "st' = st1\<lparr>skipped_count := skipped_count st1 + 1\<rparr>" by (simp add: item_step_def)
        with d Ret True show ?thesis by auto
      next
        case F: False
        with d Ret Some False assms
        have "st' = process_book e url st1" by (simp add: item_step_def)
        with d Ret F show ?thesis by auto
      qed
    qed
  qed
qed

lemma item_step_frame:
  assumes "item_step e url st = Next st' \<or> item_step e url st = Abort st'"
  shows "page_num st' = page_num st"
    "skipped_count st \<le> skipped_count st'"
    "scraped_count st' = scraped_count st \<or> scraped_count st' = scraped_count st + 1"
  using item_step_cases [OF assms] is_book_in_database_frame(1-3) [of e _ st]
    process_book_frame [of e url]
  by (elim disjE exE conjE; simp; metis)+

lemma only_titled_simps [simp]:
  "only_titled []"
  "only_titled (xs @ ys) = (only_titled xs \<and> only_titled ys)"
  "only_titled (Goto u # evs) = only_titled evs"
  "only_titled (Lookup k # evs) = only_titled evs"
  "only_titled (Scrape u # evs) = only_titled evs"
  "only_titled (Navigate u # evs) = only_titled evs"
  "only_titled (AddBook row # evs) = (title row \<noteq> [] \<and> only_titled evs)"
  by (simp_all add: only_titled_def)

lemma only_titled_iff: "only_titled evs \<longleftrightarrow> (\<forall>row. AddBook row \<in> set evs \<longrightarrow> title row \<noteq> [])"
  by (induction evs) (auto simp: only_titled_def split: event.splits)

lemma process_book_titled:
  "\<exists>evs. trace (process_book e url s) = trace s @ evs \<and> only_titled evs"
  using process_book_adds [of e url s] by (simp add: only_titled_iff)

lemma item_step_titled:
  assumes "item_step e url st = Next st' \<or> item_step e url st = Abort st'"
  shows "\<exists>evs. trace st' = trace st @ evs \<and> only_titled evs"
proof -
  have db: "\<exists>evs. trace s1 = trace st @ evs \<and> only_titled evs"
    if "is_book_in_database e k st = (r, s1)" for k r s1
    using is_book_in_database_frame(4) [OF that] by auto
  have chain: "\<exists>evs. trace (process_book e url s1) = trace st @ evs \<and> only_titled evs"
    if "is_book_in_database e k st = (r, s1)" for k r s1
  proof -
    from db [OF that] obtain e1 where 1: "trace s1 = trace st @ e1" "only_titled e1" by blast
    from process_book_titled [of e url s1] obtain e2 where
      2: "trace (process_book e url s1) = trace s1 @ e2" "only_titled e2" by blast
    from 1 2 have "trace (process_book e url s1) = trace st @ (e1 @ e2)" "only_titled (e1 @ e2)"
      by simp_all
    then show ?thesis by blast
  qed
  from item_step_cases [OF assms] show ?thesis
  proof (elim disjE exE conjE)
    assume "st' = process_book e url st"
    then show ?thesis using process_book_titled by blast
  next
    fix k st1 assume a: "is_book_in_database e k st = (Ret True, st1)"
      "st' = st1\<lparr>skipped_count := skipped_count st1 + 1\<rparr>"
    from db [OF a(1)] a(2) show ?thesis by simp
  next
    fix k assume "is_book_in_database e k st = (Raise, st')"
    from db [OF this] show ?thesis .
  next
    fix k st1 assume a: "is_book_in_database e k st = (Ret False, st1)"
      "st' = process_book e url st1"
    from chain [OF a(1)] a(2) show ?thesis by simp
  qed
qed

lemma item_loop_frame:
  assumes "item_loop e max_books links st = Next st' \<or> item_loop e max_books links st = Abort st'"
  shows "page_num st' = page_num st \<and> skipped_count st \<le> skipped_count st'
     \<and> scraped_count st \<le> scraped_count st'
     \<and> (scraped_count st \<le> max_books \<longrightarrow> scraped_count st' \<le> max_books)
     \<and> (\<exists>evs. trace st' = trace st @ evs \<and> only_titled evs)"
  using assms
proof (induction links arbitrary: st)
  case Nil
  then show ?case by auto
next
  case (Cons url rest)
  show ?case
  proof (cases "scraped_count st \<ge> max_books")
    case True
    with Cons.prems show ?thesis by auto
  next
    case False
    show ?thesis
    proof (cases "item_step e url st")
      case (Abort s1)
      with False Cons.prems have "st' = s1" by simp
      with Abort item_step_frame [of e url st st'] item_step_titled [of e url st st'] False
      show ?thesis by auto
    next
      case (Next s1)
      with False Cons.prems
      have "item_loop e max_books rest s1 = Next st' \<or> item_loop e max_books rest s1 = Abort st'"
        by simp
      from Cons.IH [OF this] have ih: "page_num st' = page_num s1" "skipped_count s1 \<le> skipped_count st'"
        "scraped_count s1 \<le> scraped_count st'"
        "scraped_count s1 \<le> max_books \<longrightarrow> scraped_count st' \<le> max_books"
        "\<exists>evs. trace st' = trace s1 @ evs \<and> only_titled evs" by blast+
      from Next have n: "item_step e url st = Next s1 \<or> item_step e url st = Abort s1" by simp
      note f = item_step_frame [OF n]
      from item_step_titled [OF n] obtain e1 where e1: "trace s1 = trace st @ e1" "only_titled e1"
        by blast
      from ih(5) obtain e2 where e2: "trace st' = trace s1 @ e2" "only_titled e2" by blast
      from e1 e2 have "trace st' = trace st @ (e1 @ e2)" "only_titled (e1 @ e2)" by simp_all
      then have t: "\<exists>evs. trace st' = trace st @ evs \<and> only_titled evs" by blast
      from f ih(1-4) False t show ?thesis by auto
    qed
  qed
qed

lemma crawl_pages_done:
  "\<not> scraped_count st < max_books \<Longrightarrow> crawl_pages fuel e max_books st = Some (Next st)"
  by (simp add: crawl_pages.simps)

lemma crawl_pages_unfold:
  assumes "crawl_pages (Suc f) e max_books st = Some res" and "scraped_count st < max_books"
  shows "\<exists>st1. trace st1 = trace st @ [Goto (current_page_url (target_url e) (page_num st))]
      \<and> scraped_count st1 = scraped_count st \<and> skipped_count st1 = skipped_count st
      \<and> page_num st1 = page_num st
      \<and> (res = Next st1 \<or> res = Abort st1
          \<or> (\<exists>links st2. item_loop e max_books links st1 = Abort st2 \<and> res = Abort st2)
          \<or> (\<exists>links st2. item_loop e max_books links st1 = Next st2
                \<and> \<not> scraped_count st2 < max_books \<and> res = Next st2)
          \<or> (\<exists>links st2. item_loop e max_books links st1 = Next st2
                \<and> scraped_count st2 < max_books
                \<and> crawl_pages f e max_books (st2\<lparr>page_num := page_num st2 + 1\<rparr>) = Some res))"
proof -
  let ?url = "current_page_url (target_url e) (page_num st)"
  obtain r st1 where c: "call (page_goto e ?url) (log_event (Goto ?url) st) = (r, st1)"
    by (cases "call (page_goto e ?url) (log_event (Goto ?url) st)")
  then have f: "trace st1 = trace st @ [Goto ?url]" "scraped_count st1 = scraped_count st"
    "skipped_count st1 = skipped_count st" "page_num st1 = page_num st"
    by (auto simp: call_def log_event_def split: prod.splits)
  have "res = Next st1 \<or> res = Abort st1
          \<or> (\<exists>links st2. item_loop e max_books links st1 = Abort st2 \<and> res = Abort st2)
          \<or> (\<exists>links st2. item_loop e max_books links st1 = Next st2
                \<and> \<not> scraped_count st2 < max_books \<and> res = Next st2)
          \<or> (\<exists>links st2. item_loop e max_books links st1 = Next st2
                \<and> scraped_count st2 < max_books
                \<and> crawl_pages f e max_books (st2\<lparr>page_num := page_num st2 + 1\<rparr>) = Some res)"
    using assms c
    by (simp add: crawl_pages.simps [of "Suc f"] Let_def
        split: res.splits option.splits if_splits step.splits) metis+
  with f show ?thesis by blast
qed

lemma crawl_pages_frame:
  assumes "crawl_pages fuel e max_books st = Some res" and "res = Next st' \<or> res = Abort st'"
  shows "skipped_count st \<le> skipped_count st' \<and> scraped_count st \<le> scraped_count st'
     \<and> (scraped_count st \<le> max_books \<longrightarrow> scraped_count st' \<le> max_books)
     \<and> page_num st \<le> page_num st'
     \<and> (\<exists>evs. trace st' = trace st @ evs \<and> only_titled evs)"
  using assms
proof (induction fuel arbitrary: st)
  case 0
  then have "res = Next st" by (simp add: crawl_pages.simps split: if_splits)
  with 0(2) have "st' = st" by auto
  then show ?case by simp
next
  case (Suc f)
  show ?case
  proof (cases "scraped_count st < max_books")
    case False
    with Suc.prems(1) have "res = Next st" by (simp add: crawl_pages_done)
    with Suc.prems(2) have "st' = st" by auto
    then show ?thesis by simp
  next
    case True
    from crawl_pages_unfold [OF Suc.prems(1) True]
    obtain st1 where f: "trace st1 = trace st @ [Goto (current_page_url (target_url e) (page_num st))]"
      "scraped_count st1 = scraped_count st" "skipped_count st1 = skipped_count st"
      "page_num st1 = page_num st"
      and d: "res = Next st1 \<or> res = Abort st1
          \<or> (\<exists>links st2. item_loop e max_books links st1 = Abort st2 \<and> res = Abort st2)
          \<or> (\<exists>links st2. item_loop e max_books links st1 = Next st2
                \<and> \<not> scraped_count st2 < max_books \<and> res = Next st2)
          \<or> (\<exists>links st2. item_loop e max_books links st1 = Next st2
                \<and> scraped_count st2 < max_books
                \<and> crawl_pages f e max_books (st2\<lparr>page_num := page_num st2 + 1\<rparr>) = Some res)"
      by blast
    have base: "skipped_count st \<le> skipped_count st1 \<and> scraped_count st \<le> scraped_count st1
     \<and> (scraped_count st \<le> max_books \<longrightarrow> scraped_count st1 \<le> max_books)
     \<and> page_num st \<le> page_num st1
     \<and> (\<exists>evs. trace st1 = trace st @ evs \<and> only_titled evs)"
      using f by simp
    have loop: "skipped_count st \<le> skipped_count st2 \<and> scraped_count st \<le> scraped_count st2
     \<and> (scraped_count st \<le> max_books \<longrightarrow> scraped_count st2 \<le> max_books)
     \<and> page_num st = page_num st2
     \<and> (\<exists>evs. trace st2 = trace st @ evs \<and> only_titled evs)"
      if "item_loop e max_books links st1 = Next st2 \<or> item_loop e max_books links st1 = Abort st2"
      for links st2
    proof -
      from item_loop_frame [OF that] obtain evs where
        l: "page_num st2 = page_num st1" "skipped_count st1 \<le> skipped_count st2"
        "scraped_count st1 \<le> scraped_count st2"
        "scraped_count st1 \<le> max_books \<longrightarrow> scraped_count st2 \<le> max_books"
        "trace st2 = trace st1 @ evs" "only_titled evs" by blast
      from l(5,6) f(1)
      have "trace st2 = trace st @ (Goto (current_page_url (target_url e) (page_num st)) # evs)"
        "only_titled (Goto (current_page_url (target_url e) (page_num st)) # evs)" by simp_all
      then have "\<exists>evs. trace st2 = trace st @ evs \<and> only_titled evs" by blast
      with l(1-4) f(2-4) show ?thesis by simp
    qed
    from d show ?thesis
    proof (elim disjE exE conjE)
      assume "res = Next st1"
      with Suc.prems(2) have "st' = st1" by auto
      with base show ?thesis by simp
    next
      assume "res = Abort st1"
      with Suc.prems(2) have "st' = st1" by auto
      with base show ?thesis by simp
    next
      fix links st2 assume a: "item_loop e max_books links st1 = Abort st2" "res = Abort st2"
      with Suc.prems(2) have "st' = st2" by auto
      with loop [of links st2] a(1) show ?thesis by simp
    next
      fix links st2 assume a: "item_loop e max_books links st1 = Next st2" "res = Next st2"
      with Suc.prems(2) have "st' = st2" by auto
      with loop [of links st2] a(1) show ?thesis by simp
    next
      fix links st2 assume a: "item_loop e max_books links st1 = Next st2"
        "scraped_count st2 < max_books"
        "crawl_pages f e max_books (st2\<lparr>page_num := page_num st2 + 1\<rparr>) = Some res"
      from loop [of links st2] a(1) obtain e1 where
        l: "skipped_count st \<le> skipped_count st2" "scraped_count st \<le> scraped_count st2"
        "page_num st = page_num st2" "trace st2 = trace st @ e1" "only_titled e1" by auto
      from Suc.IH [OF a(3) Suc.prems(2)] obtain e2 where
        r: "skipped_count st2 \<le> skipped_count st'" "scraped_count st2 \<le> scraped_count st'"
        "scraped_count st' \<le> max_books" "page_num st2 + 1 \<le> page_num st'"
        "trace st' = trace st2 @ e2" "only_titled e2" using a(2) by auto
      from l(4,5) r(5,6) have "trace st' = trace st @ (e1 @ e2)" "only_titled (e1 @ e2)" by simp_all
      then have "\<exists>evs. trace st' = trace st @ evs \<and> only_titled evs" by blast
      with l(1-3) r(1-4) show ?thesis by simp
    qed
  qed
qed


lemma crawl_pages_from_start:
  assumes "crawl_pages fuel e max_books st0 = Some (Next st') \<or> crawl_pages fuel e max_books st0 = Some (Abort st')"
    and "trace st0 = []" and "scraped_count st0 = 0"
  shows "only_titled (trace st')" "0 \<le> scraped_count st'"
    "0 \<le> max_books \<Longrightarrow> scraped_count st' \<le> max_books"
proof -
  from assms(1) obtain res where "crawl_pages fuel e max_books st0 = Some res"
    "res = Next st' \<or> res = Abort st'" by auto
  from crawl_pages_frame [OF this] assms(2,3)
  show "only_titled (trace st')" "0 \<le> scraped_count st'"
    "0 \<le> max_books \<Longrightarrow> scraped_count st' \<le> max_books" by auto
qed

lemma run_shape:
  assumes "scrape_new_arrivals fuel e max_books w = Some (r, st)"
  shows "only_titled (trace st)"
    "0 \<le> scraped_count st"
    "0 \<le> max_books \<Longrightarrow> scraped_count st \<le> max_books"
    "r = Returned n \<Longrightarrow> n = scraped_count st"
    "r = Raised \<Longrightarrow> fst (initialize e w) = Raise \<or> (\<exists>w'. fst (close e w') = Raise)"
proof -
  obtain i st0 where i: "call (initialize e) (initial w) = (i, st0)"
    by (cases "call (initialize e) (initial w)")
  then have f0: "trace st0 = []" "scraped_count st0 = 0" "fst (initialize e w) = i"
    by (auto simp: call_def initial_def split: prod.splits)
  have cl: "trace s' = trace s \<and> scraped_count s' = scraped_count s
      \<and> (c = Raise \<longrightarrow> fst (close e (world s)) = Raise)"
    if "call (close e) s = (c, s')" for c s s'
    using that by (auto simp: call_def split: prod.splits)
  have fin: "trace s' = trace s \<and> scraped_count s' = scraped_count s
      \<and> (r' = Returned (scraped_count s) \<or> (r' = Raised \<and> fst (close e (world s)) = Raise))"
    if "finish e s = (r', s')" for r' s s'
    using that by (auto simp: finish_def call_def split: prod.splits res.splits)
  have np: "trace s' = trace s \<and> scraped_count s' = scraped_count s"
    if "call (new_page e) s = (c, s')" for c s s'
    using that by (auto simp: call_def split: prod.splits)
  have pc: "trace s' = trace s \<and> scraped_count s' = scraped_count s"
    if "call (page_close e) s = (c, s')" for c s s'
    using that by (auto simp: call_def split: prod.splits)
  have "only_titled (trace st) \<and> 0 \<le> scraped_count st
    \<and> (0 \<le> max_books \<longrightarrow> scraped_count st \<le> max_books)
    \<and> (\<forall>n. r = Returned n \<longrightarrow> n = scraped_count st)
    \<and> (r = Raised \<longrightarrow> fst (initialize e w) = Raise \<or> (\<exists>w'. fst (close e w') = Raise))"
  proof (cases i)
    case Raise
    with assms i f0 show ?thesis by (simp add: scrape_new_arrivals_def)
  next
    case (Ret b)
    show ?thesis
    proof (cases b)
      case False
      obtain c st1 where c: "call (close e) st0 = (c, st1)" by (cases "call (close e) st0")
      from cl [OF c] f0 assms i Ret False c show ?thesis
        by (cases c) (auto simp: scrape_new_arrivals_def)
    next
      case True
      obtain p st1 where p: "call (new_page e) st0 = (p, st1)" by (cases "call (new_page e) st0")
      note f1 = np [OF p]
      show ?thesis
      proof (cases p)
        case Raise
        with assms i Ret True p have "finish e st1 = (r, st)"
          by (simp add: scrape_new_arrivals_def)
        from fin [OF this] f1 f0 show ?thesis by auto
      next
        case R: (Ret b2)
        show ?thesis
        proof (cases b2)
          case False
          obtain c st2 where c: "call (close e) st1 = (c, st2)" by (cases "call (close e) st1")
          note f2 = cl [OF c]
          show ?thesis
          proof (cases c)
            case Raise
            with assms i Ret True p R False c have "finish e st2 = (r, st)"
              by (simp add: scrape_new_arrivals_def)
            from fin [OF this] f2 f1 f0 show ?thesis by auto
          next
            case (Ret u)
            obtain c3 st3 where c3: "call (close e) st2 = (c3, st3)"
              by (cases "call (close e) st2")
            from cl [OF c3] f2 f1 f0 assms i \<open>i = Ret b\<close> True p R False c Ret c3 show ?thesis
              by (cases c3) (auto simp: scrape_new_arrivals_def)
          qed
        next
          case T2: True
          from assms i Ret True p R T2
          obtain res where cp: "crawl_pages fuel e max_books st1 = Some res"
            by (auto simp: scrape_new_arrivals_def split: option.splits)
          show ?thesis
          proof (cases res)
            case (Abort st2)
            with assms i Ret True p R T2 cp have fi: "finish e st2 = (r, st)"
              by (simp add: scrape_new_arrivals_def)
            from cp Abort have "crawl_pages fuel e max_books st1 = Some (Next st2)
                \<or> crawl_pages fuel e max_books st1 = Some (Abort st2)" by simp
            from crawl_pages_from_start [OF this] f1 f0 fin [OF fi] show ?thesis by auto
          next
            case (Next st2)
            obtain c st3 where c: "call (page_close e) st2 = (c, st3)"
              by (cases "call (page_close e) st2")
            with Next assms i Ret True p R T2 cp have fi: "finish e st3 = (r, st)"
              by (simp add: scrape_new_arrivals_def)
            from cp Next have "crawl_pages fuel e max_books st1 = Some (Next st2)
                \<or> crawl_pages fuel e max_books st1 = Some (Abort st2)" by simp
            from crawl_pages_from_start [OF this] f1 f0 fin [OF fi] pc [OF c] show ?thesis by auto
          qed
        qed
      qed
    qed
  qed
  then show "only_titled (trace st)"
    "0 \<le> scraped_count st"
    "0 \<le> max_books \<Longrightarrow> scraped_count st \<le> max_books"
    "r = Returned n \<Longrightarrow> n = scraped_count st"
    "r = Raised \<Longrightarrow> fst (initialize e w) = Raise \<or> (\<exists>w'. fst (close e w') = Raise)"
    by blast+
qed




lemma full_run:
  "map_option (\<lambda>(r, st). (r, skipped_count st, scraped_count st)) (scrape_new_arrivals (Suc (Suc 0)) demo_env 1 full_store)
     = Some (Returned 0, 3, 0)"
  by (simp add: scrape_new_arrivals_def crawl_pages.simps finish_def current_page_url_def
      extract_book_links_def py_str_int_def dec.simps
      demo_env_def demo_site_def full_store_def run_defs)

lemma scraped_urls_append [simp]: "scraped_urls (xs @ ys) = scraped_urls xs @ scraped_urls ys"
  by (induction xs rule: scraped_urls.induct) simp_all

lemma store_find_append:
  "store_find k (db @ [row]) = None \<longleftrightarrow> store_find k db = None \<and> sku row \<noteq> k"
  by (auto simp: store_find_def find_None_iff)

lemma shop_scrape:
  assumes "extractable s u"
  shows "\<exists>bd. scrape_book (shop_env s h d) u st
            = (Ret (Some bd), st\<lparr>trace := trace st @ [Scrape u, Navigate u]\<rparr>)
          \<and> sku bd = resolved_sku s h u \<and> title bd \<noteq> []"
proof -
  from assms obtain resp t where r: "item_at s u = Ret (Some resp)" "ok resp"
    "\<not> load_state_raises (loaded resp)" "\<not> evaluate_raises (loaded resp) ImageScript"
    "get_text (loaded resp) (str ''h1.product__title'') = Some t" "t \<noteq> []"
    by (auto simp: extractable_def split: res.splits option.splits)
  then obtain bd where bf: "book_fields h (loaded resp) u = Ret (Some bd)"
    "sku bd = extract_sku h (loaded resp) u" "title bd = t"
    by (simp add: book_fields_def Let_def)
  have "scrape_book (shop_env s h d) u st
            = (Ret (Some bd), st\<lparr>trace := trace st @ [Scrape u, Navigate u]\<rparr>)"
    using r(1,2) bf(1)
    by (simp add: scrape_book_def shop_env_def call_def log_event_def close_page_then_def)
  moreover have "sku bd = resolved_sku s h u" using bf(2) r(1) by (simp add: resolved_sku_def)
  ultimately show ?thesis using bf(3) r(6) by blast
qed

lemma url_sku_resolved:
  assumes "extract_sku_from_url u = Some k" and "item_at s u = Ret (Some resp)"
  shows "resolved_sku s h u = JStr k" "k \<noteq> []"
  using assms by (auto simp: resolved_sku_def extract_sku_def extract_sku_from_url_def Let_def
      split: if_splits)

lemma shop_item_step:
  assumes "extractable s u" and "store_find (resolved_sku s h u) (world st) = None"
  shows "\<exists>evs row. item_step (shop_env s h d) u st
            = Next (st\<lparr>trace := trace st @ evs, world := world st @ [row],
                      scraped_count := scraped_count st + 1\<rparr>)
          \<and> sku row = resolved_sku s h u \<and> scraped_urls evs = [u]"
proof -
  from assms(1) obtain resp where resp: "item_at s u = Ret (Some resp)"
    by (auto simp: extractable_def split: res.splits option.splits)
  have pb: "\<exists>row. process_book (shop_env s h d) u st1
        = st1\<lparr>trace := trace st1 @ [Scrape u, Navigate u, AddBook row],
              world := world st1 @ [row], scraped_count := scraped_count st1 + 1\<rparr>
        \<and> sku row = resolved_sku s h u"
    if "store_find (resolved_sku s h u) (world st1) = None" for st1 :: "store crawl"
  proof -
    from shop_scrape [OF assms(1), of h d st1] obtain bd where
      bd: "scrape_book (shop_env s h d) u st1
            = (Ret (Some bd), st1\<lparr>trace := trace st1 @ [Scrape u, Navigate u]\<rparr>)"
      "sku bd = resolved_sku s h u" "title bd \<noteq> []" by blast
    have sk: "sku (with_category bd) = resolved_sku s h u"
      using bd(2) by (simp add: with_category_def book_data.defs)
    have "process_book (shop_env s h d) u st1
        = st1\<lparr>trace := trace st1 @ [Scrape u, Navigate u, AddBook (with_category bd)],
              world := world st1 @ [with_category bd], scraped_count := scraped_count st1 + 1\<rparr>"
      using bd(1,3) that sk
      by (simp add: process_book_def Let_def call_def log_event_def shop_env_def
          store_insert_def id_truthy_def)
    with sk show ?thesis by blast
  qed
  show ?thesis
  proof (cases "extract_sku_from_url u")
    case None
    from pb [OF assms(2)] obtain row where
      "process_book (shop_env s h d) u st
        = st\<lparr>trace := trace st @ [Scrape u, Navigate u, AddBook row],
              world := world st @ [row], scraped_count := scraped_count st + 1\<rparr>"
      "sku row = resolved_sku s h u" by blast
    with None show ?thesis
      by (intro exI [of _ "[Scrape u, Navigate u, AddBook row]"] exI [of _ row])
        (simp add: item_step_def)
  next
    case (Some k)
    from url_sku_resolved [OF Some resp] have k: "resolved_sku s h u = JStr k" "k \<noteq> []" by blast+
    let ?st1 = "st\<lparr>trace := trace st @ [Lookup k]\<rparr>"
    have db: "is_book_in_database (shop_env s h d) k st = (Ret False, ?st1)"
      using k assms(2)
      by (simp add: is_book_in_database_def call_def log_event_def shop_env_def)
    have "store_find (resolved_sku s h u) (world ?st1) = None" using assms(2) by simp
    from pb [OF this] obtain row where
      p: "process_book (shop_env s h d) u ?st1
        = ?st1\<lparr>trace := trace ?st1 @ [Scrape u, Navigate u, AddBook row],
              world := world ?st1 @ [row], scraped_count := scraped_count ?st1 + 1\<rparr>"
      "sku row = resolved_sku s h u" by blast
    have "item_step (shop_env s h d) u st
        = Next (st\<lparr>trace := trace st @ [Lookup k, Scrape u, Navigate u, AddBook row],
                   world := world st @ [row], scraped_count := scraped_count st + 1\<rparr>)"
      using Some k(2) db p(1) by (simp add: item_step_def)
    with p(2) show ?thesis
      by (intro exI [of _ "[Lookup k, Scrape u, Navigate u, AddBook row]"] exI [of _ row]) simp
  qed
qed

lemma shop_item_loop:
  assumes "\<forall>u\<in>set links. extractable s u"
    and "distinct (map (resolved_sku s h) links)"
    and "\<forall>u\<in>set links. store_find (resolved_sku s h u) (world st) = None"
  shows "\<exists>st'. item_loop (shop_env s h d) max_books links st = Next st'
     \<and> scraped_count st' = scraped_count st + int (min (length links) (nat (max_books - scraped_count st)))
     \<and> skipped_count st' = skipped_count st \<and> page_num st' = page_num st
     \<and> scraped_urls (trace st') = scraped_urls (trace st) @ take (nat (max_books - scraped_count st)) links"
  using assms
proof (induction links arbitrary: st)
  case Nil
  show ?case by simp
next
  case (Cons u rest)
  show ?case
  proof (cases "scraped_count st \<ge> max_books")
    case True
    then show ?thesis by simp
  next
    case False
    from Cons.prems have ex: "extractable s u" and nf: "store_find (resolved_sku s h u) (world st) = None"
      by simp_all
    from shop_item_step [OF ex nf, of d] obtain evs row where
      st: "item_step (shop_env s h d) u st
            = Next (st\<lparr>trace := trace st @ evs, world := world st @ [row],
                      scraped_count := scraped_count st + 1\<rparr>)"
      and row: "sku row = resolved_sku s h u" and evs: "scraped_urls evs = [u]" by blast
    let ?st1 = "st\<lparr>trace := trace st @ evs, world := world st @ [row],
                      scraped_count := scraped_count st + 1\<rparr>"
    have 1: "\<forall>v\<in>set rest. extractable s v" using Cons.prems(1) by simp
    have 2: "distinct (map (resolved_sku s h) rest)" using Cons.prems(2) by simp
    have 3: "\<forall>v\<in>set rest. store_find (resolved_sku s h v) (world ?st1) = None"
    proof
      fix v assume v: "v \<in> set rest"
      with Cons.prems(2) have "resolved_sku s h u \<noteq> resolved_sku s h v" by auto
      moreover from v Cons.prems(3) have "store_find (resolved_sku s h v) (world st) = None" by simp
      ultimately show "store_find (resolved_sku s h v) (world ?st1) = None"
        using row by (simp add: store_find_append)
    qed
    from Cons.IH [OF 1 2 3] obtain st' where
      ih: "item_loop (shop_env s h d) max_books rest ?st1 = Next st'"
      "scraped_count st' = scraped_count ?st1 + int (min (length rest) (nat (max_books - scraped_count ?st1)))"
      "skipped_count st' = skipped_count ?st1" "page_num st' = page_num ?st1"
      "scraped_urls (trace st') = scraped_urls (trace ?st1) @ take (nat (max_books - scraped_count ?st1)) rest"
      by blast
    from False obtain m where m: "nat (max_books - scraped_count st) = Suc m"
      "nat (max_books - (scraped_count st + 1)) = m"
      by (cases "nat (max_books - scraped_count st)") auto
    have "item_loop (shop_env s h d) max_books (u # rest) st = Next st'"
      using False st ih(1) by simp
    moreover have "scraped_count st' = scraped_count st
        + int (min (length (u # rest)) (nat (max_books - scraped_count st)))"
      using ih(2) m by simp
    moreover have "scraped_urls (trace st') = scraped_urls (trace st)
        @ take (nat (max_books - scraped_count st)) (u # rest)"
      using ih(5) m evs by simp
    ultimately show ?thesis using ih(3,4) by simp
  qed
qed

lemma shop_run:
  assumes "0 < max_books" and "max_books \<le> int (length links)"
    and "listing_at s (site_url s) = ok_response (listing_of links)"
    and "\<forall>u\<in>set links. extractable s u"
    and "distinct (map (resolved_sku s h) links)"
    and "\<forall>u\<in>set links. store_find (resolved_sku s h u) db = None"
  shows "\<exists>st. scrape_new_arrivals (Suc fuel) (shop_env s h d) max_books db = Some (Returned max_books, st)
     \<and> scraped_count st = max_books \<and> skipped_count st = 0
     \<and> scraped_urls (trace st) = take (nat max_books) links"
proof -
  let ?e = "shop_env s h d"
  let ?st1 = "(initial db)\<lparr>trace := [Goto (site_url s)]\<rparr>"
  have w: "\<forall>u\<in>set links. store_find (resolved_sku s h u) (world ?st1) = None"
    using assms(6) by (simp add: initial_def)
  from shop_item_loop [OF assms(4,5) w, of d max_books] obtain st2 where
    l: "item_loop ?e max_books links ?st1 = Next st2"
    "scraped_count st2 = scraped_count ?st1 + int (min (length links) (nat (max_books - scraped_count ?st1)))"
    "skipped_count st2 = skipped_count ?st1"
    "scraped_urls (trace st2) = scraped_urls (trace ?st1) @ take (nat (max_books - scraped_count ?st1)) links"
    by blast
  from assms(1,2) have "min (length links) (nat max_books) = nat max_books" by linarith
  with l(2) assms(1) have sc: "scraped_count st2 = max_books" by (simp add: initial_def)
  from l(3) have sk: "skipped_count st2 = 0" by (simp add: initial_def)
  from l(4) have su: "scraped_urls (trace st2) = take (nat max_books) links"
    by (simp add: initial_def)
  from assms(1,2) have ne: "links \<noteq> []" by auto
  have cp: "crawl_pages (Suc fuel) ?e max_books (initial db) = Some (Next st2)"
    using assms(1,3) ne l(1) sc
    by (simp add: crawl_pages.simps [of "Suc fuel"] initial_def current_page_url_def
        shop_env_def call_def log_event_def ok_response_def listing_of_def
        extract_book_links_def)
  have "scrape_new_arrivals (Suc fuel) ?e max_books db = Some (Returned max_books, st2)"
    using cp sc
    by (simp add: scrape_new_arrivals_def finish_def call_def shop_env_def initial_def)
  with sc sk su show ?thesis by blast
qed

text \<open>
  C5. When no title is extracted from an item page (no text, or only white space), the
  fields of the page never make a record: the item extractor raises or reports
  nothing. Every record the item extractor returns carries the non-empty title read
  from the loaded page, and in every run each record handed to \<open>add_book\<close> has a
  title that is not empty.
\<close>

theorem untitled_record_never_emitted:
  "(get_text page (str ''h1.product__title'') = None
      \<or> get_text page (str ''h1.product__title'') = Some [] \<longrightarrow>
        book_fields h page url = Raise \<or> book_fields h page url = Ret None)
   \<and> (\<forall>bd st'. scrape_book e url st = (Ret (Some bd), st') \<longrightarrow>
         title bd \<noteq> []
         \<and> (\<exists>w resp. fst (navigate e url w) = Ret (Some resp)
               \<and> get_text (loaded resp) (str ''h1.product__title'') = Some (title bd)))
   \<and> (\<forall>r st'. scrape_new_arrivals fuel e max_books w0 = Some (r, st') \<longrightarrow>
         (\<forall>row. AddBook row \<in> set (trace st') \<longrightarrow> title row \<noteq> []))"
proof -
  have 1: "get_text page (str ''h1.product__title'') = None
      \<or> get_text page (str ''h1.product__title'') = Some [] \<longrightarrow>
        book_fields h page url = Raise \<or> book_fields h page url = Ret None"
    using book_fields_no_title by blast
  have 2: "title bd \<noteq> []
         \<and> (\<exists>w resp. fst (navigate e url w) = Ret (Some resp)
               \<and> get_text (loaded resp) (str ''h1.product__title'') = Some (title bd))"
    if "scrape_book e url st = (Ret (Some bd), st')" for bd st'
    using scrape_book_result [OF that] book_fields_title by blast
  have 3: "\<forall>row. AddBook row \<in> set (trace st') \<longrightarrow> title row \<noteq> []"
    if "scrape_new_arrivals fuel e max_books w0 = Some (r, st')" for r st'
    using run_shape(1) [OF that] by (simp add: only_titled_iff)
  from 1 2 3 show ?thesis by blast
qed

lemma short_run_trace:
  "map_option (\<lambda>(r, st). (r, only_titled (trace st)))
      (scrape_new_arrivals (Suc (Suc 0)) short_env 1 short_store) = Some (Returned 0, True)"
  by (simp add: scrape_new_arrivals_def crawl_pages.simps finish_def current_page_url_def
      extract_book_links_def py_str_int_def dec.simps
      short_env_def short_site_def short_store_def run_defs)

theorem untitled_record_never_emitted_witness:
  "get_text (page_with []) (str ''h1.product__title'') = None
   \<and> book_fields (\<lambda>_. 0) (page_with []) (str ''https://shop/p/ab'') = Ret None
   \<and> fst (scrape_book short_env (str ''https://shop/p/ab'') (initial short_store)) = Ret (Some dup_book)
   \<and> title dup_book = str ''Dup''
   \<and> map_option (\<lambda>(r, st). (r, only_titled (trace st)))
        (scrape_new_arrivals (Suc (Suc 0)) short_env 1 short_store) = Some (Returned 0, True)"
  using untitled_record_never_emitted [of "page_with []" "\<lambda>_. 0" "str ''https://shop/p/ab''"
      short_env "initial short_store" "Suc (Suc 0)" 1 short_store]
    short_scrape short_run_trace
  by (simp add: get_text_def page_with_def book_fields_def dup_book_def)





text \<open>
  C6. For a positive \<open>max_books\<close> the accepted count of a run never exceeds
  \<open>max_books\<close>. In a shop whose first listing page has at least \<open>max_books\<close> links,
  all extractable, with pairwise different identifiers of which the store holds none,
  the run accepts exactly \<open>max_books\<close> records, and the item extractor is entered for
  the first \<open>max_books\<close> links only.
\<close>

theorem budget_bounds_accepted_count:
  "(\<forall>r st. 0 < max_books \<and> scrape_new_arrivals fuel e max_books w = Some (r, st) \<longrightarrow>
       scraped_count st \<le> max_books \<and> (\<forall>k. r = Returned k \<longrightarrow> k \<le> max_books))
   \<and> (0 < max_books \<and> max_books \<le> int (length links)
       \<and> listing_at s (site_url s) = ok_response (listing_of links)
       \<and> (\<forall>u\<in>set links. extractable s u)
       \<and> distinct (map (resolved_sku s h) links)
       \<and> (\<forall>u\<in>set links. store_find (resolved_sku s h u) db = None) \<longrightarrow>
       (\<exists>st. scrape_new_arrivals (Suc fuel) (shop_env s h d) max_books db
                = Some (Returned max_books, st)
            \<and> scraped_count st = max_books
            \<and> scraped_urls (trace st) = take (nat max_books) links))"
proof -
  have 1: "scraped_count st \<le> max_books \<and> (\<forall>k. r = Returned k \<longrightarrow> k \<le> max_books)"
    if "0 < max_books \<and> scrape_new_arrivals fuel e max_books w = Some (r, st)" for r st
  proof -
    from that have run: "scrape_new_arrivals fuel e max_books w = Some (r, st)" and "0 \<le> max_books"
      by simp_all
    from run_shape(3) [OF run this(2)] run_shape(4) [OF run] show ?thesis by auto
  qed
  have 2: "\<exists>st. scrape_new_arrivals (Suc fuel) (shop_env s h d) max_books db
                = Some (Returned max_books, st)
            \<and> scraped_count st = max_books
            \<and> scraped_urls (trace st) = take (nat max_books) links"
    if "0 < max_books \<and> max_books \<le> int (length links)
       \<and> listing_at s (site_url s) = ok_response (listing_of links)
       \<and> (\<forall>u\<in>set links. extractable s u)
       \<and> distinct (map (resolved_sku s h) links)
       \<and> (\<forall>u\<in>set links. store_find (resolved_sku s h u) db = None)"
    using shop_run [of max_books links s h db fuel d] that by blast
  from 1 2 show ?thesis by blast
qed

lemma eight_facts:
  "listing_at eight_site (site_url eight_site) = ok_response (listing_of eight_links)"
  "\<forall>u\<in>set eight_links. extractable eight_site u"
  "distinct (map (resolved_sku eight_site (\<lambda>_. 0)) eight_links)"
  "\<forall>u\<in>set eight_links. store_find (resolved_sku eight_site (\<lambda>_. 0) u) [] = None"
  "length eight_links = 8"
     apply (simp add: eight_site_def)
    apply (simp add: eight_site_def extractable_def ok_response_def page_with_def get_text_def
      py_strip_def strip_by_def py_isspace_def str_def)
   apply (simp add: eight_links_def resolved_sku_def eight_site_def ok_response_def extract_sku_def
      extract_sku_from_url_def strip_by_def py_split_def str_def)
  apply (simp add: store_find_def)
  apply (simp add: eight_links_def)
  done

theorem budget_bounds_accepted_count_witness:
  "listing_at eight_site (site_url eight_site) = ok_response (listing_of eight_links)
   \<and> list_all (extractable eight_site) eight_links
   \<and> distinct (map (resolved_sku eight_site (\<lambda>_. 0)) eight_links)
   \<and> list_all (\<lambda>u. store_find (resolved_sku eight_site (\<lambda>_. 0) u) [] = None) eight_links
   \<and> length eight_links = 8
   \<and> (\<exists>st. scrape_new_arrivals (Suc 0) (shop_env eight_site (\<lambda>_. 0) (Ret None)) 5 []
              = Some (Returned 5, st)
          \<and> scraped_count st = 5
          \<and> scraped_urls (trace st) = take 5 eight_links)"
proof -
  have five: "nat 5 = 5" by simp
  from budget_bounds_accepted_count [of 5 0 "shop_env eight_site (\<lambda>_. 0) (Ret None)" "[]"
      eight_links eight_site "\<lambda>_. 0" "[]" "Ret None"] eight_facts
  have "\<exists>st. scrape_new_arrivals (Suc 0) (shop_env eight_site (\<lambda>_. 0) (Ret None)) 5 []
              = Some (Returned 5, st)
          \<and> scraped_count st = 5
          \<and> scraped_urls (trace st) = take 5 eight_links"
    by (simp only: five) simp
  with eight_facts show ?thesis by (simp add: list_all_iff)
qed


section \<open>Properties of the ISBN extractor\<close>

lemma isbn_search_skip:
  "\<not> isbn_match_within pre rest \<Longrightarrow> isbn_search (pre @ rest) = isbn_search rest"
proof (induction pre)
  case Nil
  show ?case by simp
next
  case (Cons c pre)
  then have "isbn_at (c # pre @ rest) = None" "\<not> isbn_match_within pre rest"
    by (simp_all split: option.splits)
  with Cons.IH show ?case by simp
qed

lemma isbn_at_label:
  "isbn_at (str ''ISBN: 9781234567890'' @ post) = Some (str ''9781234567890'')"
  by (simp add: str_def isbn_at_def ci_eq_def js_isspace_def isbn13_at_def is_digit_def)

lemma isbn_search_label:
  "isbn_search (str ''ISBN: 9781234567890'' @ post) = Some (str ''9781234567890'')"
proof -
  obtain c cs where "str ''ISBN: 9781234567890'' @ post = c # cs" by (simp add: str_def)
  with isbn_at_label [of post] show ?thesis by simp
qed

lemma isbn_digits_clean:
  "js_trim (str ''9781234567890'') = str ''9781234567890''"
  "filter (\<lambda>c. is_digit c \<or> c = 88) (str ''9781234567890'') = str ''9781234567890''"
  "str ''9781234567890'' \<noteq> []"
  by (simp_all add: js_trim_def strip_by_def js_isspace_def str_def is_digit_def)

lemma extract_isbn_chars:
  assumes "extract_isbn page = Some r"
  shows "\<forall>c\<in>set r. is_digit c \<or> c = 88"
  using assms by (auto simp: extract_isbn_def split: if_splits json.splits)

text \<open>
  C8, as the code has it. Every ISBN the extractor returns consists of digits and the
  upper-case letter X only. It yields \<open>9781234567890\<close> for a page on which the script
  does not raise and \<open>ISBN: 9781234567890\<close> is the leftmost match of the pattern in
  the first source that has one: in the text of the details container, or, when that
  container has no match and the structured data has no \<open>isbn\<close>, in the text of the
  page.
\<close>

theorem isbn_extraction:
  "(\<forall>r. extract_isbn page = Some r \<longrightarrow> (\<forall>c\<in>set r. is_digit c \<or> c = 88))
   \<and> (\<not> evaluate_raises page IsbnScript
       \<and> details_wrapper page = Some (pre @ str ''ISBN: 9781234567890'' @ post)
       \<and> \<not> isbn_match_within pre (str ''ISBN: 9781234567890'' @ post) \<longrightarrow>
         extract_isbn page = Some (str ''9781234567890''))
   \<and> (\<not> evaluate_raises page IsbnScript
       \<and> (case details_wrapper page of None \<Rightarrow> True | Some t \<Rightarrow> isbn_search t = None)
       \<and> jsonld_isbn (json_ld page) = None
       \<and> body_text page = pre @ str ''ISBN: 9781234567890'' @ post
       \<and> \<not> isbn_match_within pre (str ''ISBN: 9781234567890'' @ post) \<longrightarrow>
         extract_isbn page = Some (str ''9781234567890''))"
proof -
  let ?label = "str ''ISBN: 9781234567890''" and ?digits = "str ''9781234567890''"
  have found: "isbn_search (pre @ ?label @ post) = Some ?digits"
    if "\<not> isbn_match_within pre (?label @ post)"
    using isbn_search_skip [OF that] isbn_search_label by simp
  have 1: "\<forall>r. extract_isbn page = Some r \<longrightarrow> (\<forall>c\<in>set r. is_digit c \<or> c = 88)"
    using extract_isbn_chars by blast
  have 2: "extract_isbn page = Some ?digits"
    if "\<not> evaluate_raises page IsbnScript
       \<and> details_wrapper page = Some (pre @ ?label @ post)
       \<and> \<not> isbn_match_within pre (?label @ post)"
  proof -
    from that found have "isbn_script page = JStr ?digits"
      by (simp add: isbn_script_def isbn_digits_clean)
    with that show ?thesis by (simp add: extract_isbn_def isbn_digits_clean)
  qed
  have 3: "extract_isbn page = Some ?digits"
    if "\<not> evaluate_raises page IsbnScript
       \<and> (case details_wrapper page of None \<Rightarrow> True | Some t \<Rightarrow> isbn_search t = None)
       \<and> jsonld_isbn (json_ld page) = None
       \<and> body_text page = pre @ ?label @ post
       \<and> \<not> isbn_match_within pre (?label @ post)"
  proof -
    from that have "(case details_wrapper page of Some t \<Rightarrow> isbn_search t | None \<Rightarrow> None) = None"
      by (simp split: option.splits)
    with that found have "isbn_script page = JStr ?digits"
      by (simp add: isbn_script_def isbn_digits_clean)
    with that show ?thesis by (simp add: extract_isbn_def isbn_digits_clean)
  qed
  from 1 2 3 show ?thesis by blast
qed

theorem isbn_extraction_witness:
  "\<not> evaluate_raises (isbn_page (str ''Details ISBN: 9781234567890 more'')) IsbnScript
   \<and> details_wrapper (isbn_page (str ''Details ISBN: 9781234567890 more'')) = None
   \<and> jsonld_isbn (json_ld (isbn_page (str ''Details ISBN: 9781234567890 more''))) = None
   \<and> body_text (isbn_page (str ''Details ISBN: 9781234567890 more''))
       = str ''Details '' @ str ''ISBN: 9781234567890'' @ str '' more''
   \<and> isbn_match_within (str ''Details '') (str ''ISBN: 9781234567890'' @ str '' more'') = False
   \<and> extract_isbn (isbn_page (str ''Details ISBN: 9781234567890 more'')) = Some (str ''9781234567890'')
   \<and> list_all (\<lambda>c. is_digit c \<or> c = 88) (str ''9781234567890'')"
proof -
  have h: "\<not> evaluate_raises (isbn_page (str ''Details ISBN: 9781234567890 more'')) IsbnScript"
    "details_wrapper (isbn_page (str ''Details ISBN: 9781234567890 more'')) = None"
    "jsonld_isbn (json_ld (isbn_page (str ''Details ISBN: 9781234567890 more''))) = None"
    "body_text (isbn_page (str ''Details ISBN: 9781234567890 more''))
       = str ''Details '' @ str ''ISBN: 9781234567890'' @ str '' more''"
    by (simp_all add: isbn_page_def page_with_def jsonld_isbn_def str_def)
  have m: "isbn_match_within (str ''Details '') (str ''ISBN: 9781234567890'' @ str '' more'') = False"
    by (simp add: str_def isbn_at_def ci_eq_def)
  from isbn_extraction [of "isbn_page (str ''Details ISBN: 9781234567890 more'')"
      "str ''Details ''" "str '' more''"] h m
  have "extract_isbn (isbn_page (str ''Details ISBN: 9781234567890 more'')) = Some (str ''9781234567890'')"
    by simp
  moreover have "list_all (\<lambda>c. is_digit c \<or> c = 88) (str ''9781234567890'')"
    by (simp add: str_def is_digit_def)
  ultimately show ?thesis using h m by simp
qed

text \<open>
  C8 as stated fails: the text of a page can contain \<open>ISBN: 9781234567890\<close> while the
  extractor yields another number, because an earlier match in the text wins, and
  because the \<open>isbn\<close> of the structured data is read before the text of the page.
\<close>

theorem isbn_first_match_counterexample:
  "body_text (isbn_page (str ''ISBN 0123456789, ISBN: 9781234567890''))
     = str ''ISBN 0123456789, '' @ str ''ISBN: 9781234567890''
   \<and> extract_isbn (isbn_page (str ''ISBN 0123456789, ISBN: 9781234567890''))
       = Some (str ''0123456789'')
   \<and> body_text ((isbn_page (str ''ISBN: 9781234567890''))
        \<lparr>json_ld := Parsed (JObj [(str ''isbn'', JStr (str ''9780000000002''))])\<rparr>)
       = str ''ISBN: 9781234567890''
   \<and> extract_isbn ((isbn_page (str ''ISBN: 9781234567890''))
        \<lparr>json_ld := Parsed (JObj [(str ''isbn'', JStr (str ''9780000000002''))])\<rparr>)
       = Some (str ''9780000000002'')"
  by (simp add: isbn_page_def page_with_def extract_isbn_def isbn_script_def jsonld_isbn_def
      isbn_at_def isbn13_at_def isbn10_at_def ci_eq_def js_isspace_def js_trim_def strip_by_def
      is_digit_def str_def)

end
